theory Spec2Isabelle
  imports Complex_Main
begin

section \<open>Python values used by the engine\<close>

text \<open>
  The engine (\<^verbatim>\<open>src/main.py\<close>) computes with Python \<^verbatim>\<open>int\<close> and \<^verbatim>\<open>float\<close>.
  Integers are unbounded and are modelled by \<open>int\<close>. Floats are modelled by exact reals
  extended with the three special values the code can produce (\<^verbatim>\<open>float('inf')\<close>, its
  negation, and the not-a-number that \<^verbatim>\<open>inf - inf\<close> and \<^verbatim>\<open>0 * inf\<close> give): rounding and
  overflow of IEEE doubles are not modelled. Exceptions are values of \<open>py_error\<close>.
\<close>

datatype py_error = IndexError | ZeroDivisionError | ValueError | OverflowError

datatype pyfloat = Fin real | PInf | NInf | NaN

text \<open>The infinity with the sign of a finite factor; \<^verbatim>\<open>0 * inf\<close> is not a number.\<close>

definition inf_of_sign :: "real \<Rightarrow> pyfloat" where
  "inf_of_sign s = (if s = 0 then NaN else if 0 < s then PInf else NInf)"

fun f_add :: "pyfloat \<Rightarrow> pyfloat \<Rightarrow> pyfloat" where
  "f_add (Fin a) (Fin b) = Fin (a + b)"
| "f_add NaN _ = NaN"
| "f_add _ NaN = NaN"
| "f_add PInf NInf = NaN"
| "f_add NInf PInf = NaN"
| "f_add PInf _ = PInf"
| "f_add _ PInf = PInf"
| "f_add NInf _ = NInf"
| "f_add _ NInf = NInf"

fun f_neg :: "pyfloat \<Rightarrow> pyfloat" where
  "f_neg (Fin a) = Fin (- a)"
| "f_neg PInf = NInf"
| "f_neg NInf = PInf"
| "f_neg NaN = NaN"

definition f_sub :: "pyfloat \<Rightarrow> pyfloat \<Rightarrow> pyfloat" where
  "f_sub a b = f_add a (f_neg b)"

fun f_mul :: "pyfloat \<Rightarrow> pyfloat \<Rightarrow> pyfloat" where
  "f_mul (Fin a) (Fin b) = Fin (a * b)"
| "f_mul NaN _ = NaN"
| "f_mul _ NaN = NaN"
| "f_mul (Fin a) PInf = inf_of_sign a"
| "f_mul (Fin a) NInf = inf_of_sign (- a)"
| "f_mul PInf (Fin b) = inf_of_sign b"
| "f_mul NInf (Fin b) = inf_of_sign (- b)"
| "f_mul PInf PInf = PInf"
| "f_mul NInf NInf = PInf"
| "f_mul PInf NInf = NInf"
| "f_mul NInf PInf = NInf"

text \<open>\<^verbatim>\<open>a / b\<close> on floats: a zero divisor raises before anything else is looked at.\<close>

fun f_div :: "pyfloat \<Rightarrow> pyfloat \<Rightarrow> py_error + pyfloat" where
  "f_div (Fin a) (Fin b) = (if b = 0 then Inl ZeroDivisionError else Inr (Fin (a / b)))"
| "f_div PInf (Fin b) = (if b = 0 then Inl ZeroDivisionError else Inr (inf_of_sign b))"
| "f_div NInf (Fin b) = (if b = 0 then Inl ZeroDivisionError else Inr (inf_of_sign (- b)))"
| "f_div NaN (Fin b) = (if b = 0 then Inl ZeroDivisionError else Inr NaN)"
| "f_div _ NaN = Inr NaN"
| "f_div (Fin a) _ = Inr (Fin 0)"
| "f_div _ _ = Inr NaN"

text \<open>\<^verbatim>\<open>a < b\<close> on floats: every comparison with a not-a-number is false.\<close>

fun f_lt :: "pyfloat \<Rightarrow> pyfloat \<Rightarrow> bool" where
  "f_lt (Fin a) (Fin b) = (a < b)"
| "f_lt NaN _ = False"
| "f_lt _ NaN = False"
| "f_lt _ NInf = False"
| "f_lt PInf _ = False"
| "f_lt _ _ = True"

text \<open>
  The builtin \<^verbatim>\<open>max(a, b)\<close> keeps its first argument unless the second compares greater.
\<close>

definition py_max :: "pyfloat \<Rightarrow> pyfloat \<Rightarrow> pyfloat" where
  "py_max a b = (if f_lt a b then b else a)"

text \<open>\<^verbatim>\<open>int(x)\<close> of a float truncates towards zero and raises on the special values.\<close>

definition trunc :: "real \<Rightarrow> int" where
  "trunc r = (if 0 \<le> r then \<lfloor>r\<rfloor> else \<lceil>r\<rceil>)"

fun py_int :: "pyfloat \<Rightarrow> py_error + int" where
  "py_int (Fin r) = Inr (trunc r)"
| "py_int NaN = Inl ValueError"
| "py_int _ = Inl OverflowError"

text \<open>\<^verbatim>\<open>xs[i]\<close> on a list: a negative index counts from the end, out of range raises.\<close>

definition py_index :: "'a list \<Rightarrow> int \<Rightarrow> py_error + 'a" where
  "py_index xs i =
     (if 0 \<le> i \<and> i < int (length xs) then Inr (xs ! nat i)
      else if i < 0 \<and> - int (length xs) \<le> i then Inr (xs ! nat (int (length xs) + i))
      else Inl IndexError)"

section \<open>Constants\<close>

definition SCREEN_WIDTH :: int where "SCREEN_WIDTH = 1280"
definition SCREEN_HEIGHT :: int where "SCREEN_HEIGHT = 720"
definition FOV :: real where "FOV = pi / 3"
definition TILE_SIZE :: int where "TILE_SIZE = 64"
definition FISHEYE_CORRECTION :: bool where "FISHEYE_CORRECTION = True"

section \<open>Map\<close>

definition WALL :: int where "WALL = 1"
definition EMPTY :: int where "EMPTY = 0"

record game_map =
  grid :: "int list list"
  num_rows :: int
  num_cols :: int

text \<open>\<^verbatim>\<open>Map.__init__\<close>: the built-in layout, one inner list per row, top to bottom.\<close>

definition layout :: "int list list" where
  "layout =
    [[1, 1, 1, 1, 1, 1, 1, 1, 1, 1, 1, 1, 1, 1, 1, 1],
     [1, 0, 0, 0, 0, 0, 0, 0, 0, 0, 0, 0, 0, 0, 0, 1],
     [1, 0, 1, 0, 1, 0, 0, 0, 0, 0, 0, 0, 0, 0, 0, 1],
     [1, 0, 1, 1, 1, 0, 1, 1, 1, 1, 0, 1, 1, 1, 1, 1],
     [1, 0, 1, 1, 1, 0, 0, 0, 0, 0, 0, 1, 0, 1, 0, 1],
     [1, 0, 1, 1, 1, 0, 0, 0, 0, 0, 0, 0, 0, 1, 0, 1],
     [1, 0, 1, 1, 0, 0, 1, 1, 1, 0, 1, 1, 1, 1, 0, 1],
     [1, 0, 0, 0, 0, 0, 1, 0, 1, 0, 0, 1, 0, 1, 0, 1],
     [1, 0, 1, 1, 1, 0, 1, 1, 1, 0, 0, 1, 0, 0, 0, 1],
     [1, 0, 1, 0, 0, 0, 0, 1, 0, 0, 0, 1, 0, 1, 0, 1],
     [1, 0, 1, 1, 0, 0, 0, 1, 0, 0, 1, 0, 0, 1, 0, 1],
     [1, 0, 1, 0, 1, 0, 0, 1, 0, 1, 1, 0, 0, 1, 0, 1],
     [1, 0, 1, 0, 1, 0, 0, 0, 0, 0, 0, 0, 0, 1, 0, 1],
     [1, 0, 1, 1, 1, 0, 1, 1, 1, 1, 0, 0, 0, 0, 0, 1],
     [1, 0, 0, 0, 0, 0, 0, 0, 0, 0, 0, 0, 0, 1, 0, 1],
     [1, 1, 1, 1, 1, 1, 1, 1, 1, 1, 1, 1, 1, 1, 1, 1]]"

text \<open>
  The constructor with the layout as an argument: \<^verbatim>\<open>num_rows = len(grid)\<close>,
  \<^verbatim>\<open>num_cols = len(grid[0])\<close>. The source only ever builds \<open>Map_init\<close>; the other maps
  of the theorems below are built the same way from another layout.
\<close>

definition Map_of :: "int list list \<Rightarrow> game_map" where
  "Map_of g = \<lparr>grid = g, num_rows = int (length g), num_cols = int (length (hd g))\<rparr>"

definition Map_init :: game_map where
  "Map_init = Map_of layout"

text \<open>
  A map as the constructor builds it from a rectangular layout with at least one row
  (\<^verbatim>\<open>grid[0]\<close> raises on an empty one).
\<close>

definition wf_map :: "game_map \<Rightarrow> bool" where
  "wf_map m \<longleftrightarrow>
     grid m \<noteq> [] \<and> int (length (grid m)) = num_rows m \<and>
     (\<forall>r \<in> set (grid m). int (length r) = num_cols m)"

text \<open>\<^verbatim>\<open>Map.get_tile\<close> (lines 53-58).\<close>

definition get_tile :: "game_map \<Rightarrow> int \<Rightarrow> int \<Rightarrow> py_error + int" where
  "get_tile m col row =
     (if 0 \<le> row \<and> row < num_rows m \<and> 0 \<le> col \<and> col < num_cols m
      then (case py_index (grid m) row of
              Inl e \<Rightarrow> Inl e
            | Inr r \<Rightarrow> py_index r col)
      else Inr WALL)"

text \<open>\<^verbatim>\<open>Map.is_wall\<close> (lines 60-65); \<^verbatim>\<open>//\<close> is floor division.\<close>

definition is_wall :: "game_map \<Rightarrow> real \<Rightarrow> real \<Rightarrow> py_error + bool" where
  "is_wall m world_x world_y =
     (let grid_col = \<lfloor>world_x / real_of_int TILE_SIZE\<rfloor>;
          grid_row = \<lfloor>world_y / real_of_int TILE_SIZE\<rfloor>
      in case get_tile m grid_col grid_row of
           Inl e \<Rightarrow> Inl e
         | Inr t \<Rightarrow> Inr (t = WALL))"

section \<open>Player\<close>

text \<open>
  Sequencing of computations that may raise: the first exception ends the computation.
\<close>

definition ebind :: "py_error + 'a \<Rightarrow> ('a \<Rightarrow> py_error + 'b) \<Rightarrow> py_error + 'b" where
  "ebind v f = (case v of Inl e \<Rightarrow> Inl e | Inr a \<Rightarrow> f a)"

definition MARGIN :: real where "MARGIN = 10"

text \<open>
  The fields \<^verbatim>\<open>x\<close>, \<^verbatim>\<open>y\<close> and \<^verbatim>\<open>angle\<close> of \<^verbatim>\<open>Player\<close>, under names that leave \<open>x\<close> and
  \<open>y\<close> free for variables.
\<close>

record player =
  player_x :: real
  player_y :: real
  player_angle :: real

definition Player_init :: "real \<Rightarrow> real \<Rightarrow> real \<Rightarrow> player" where
  "Player_init start_x start_y start_angle =
     \<lparr>player_x = start_x, player_y = start_y, player_angle = start_angle\<rparr>"

text \<open>
  \<^verbatim>\<open>not a and not b\<close> on two wall tests: \<^verbatim>\<open>and\<close> does not evaluate \<open>b\<close> when \<open>a\<close> is a
  wall.
\<close>

definition not_and_not :: "py_error + bool \<Rightarrow> py_error + bool \<Rightarrow> py_error + bool" where
  "not_and_not a b = ebind a (\<lambda>wa. if wa then Inr False else ebind b (\<lambda>wb. Inr (\<not> wb)))"

text \<open>
  \<^verbatim>\<open>Player._try_move\<close> (lines 102-118). The source updates the player in place; the
  model returns the updated player, or the exception of the first wall test that raises.
\<close>

definition try_move :: "player \<Rightarrow> real \<Rightarrow> real \<Rightarrow> game_map \<Rightarrow> py_error + player" where
  "try_move p delta_x delta_y gm =
     (let m = MARGIN in
      ebind (not_and_not (is_wall gm (player_x p + delta_x) (player_y p - m))
                         (is_wall gm (player_x p + delta_x) (player_y p + m)))
        (\<lambda>x_clear.
           let p1 = (if x_clear then p\<lparr>player_x := player_x p + delta_x\<rparr> else p) in
           ebind (not_and_not (is_wall gm (player_x p1 - m) (player_y p1 + delta_y))
                              (is_wall gm (player_x p1 + m) (player_y p1 + delta_y)))
             (\<lambda>y_clear.
                Inr (if y_clear then p1\<lparr>player_y := player_y p1 + delta_y\<rparr> else p1))))"

section \<open>Raycaster\<close>

definition MAX_DEPTH :: int where "MAX_DEPTH = 20"

record raycaster =
  screen_width :: int
  screen_height :: int
  half_height :: int
  fov :: real
  half_fov :: real

definition Raycaster_init :: "int \<Rightarrow> int \<Rightarrow> real \<Rightarrow> raycaster" where
  "Raycaster_init sw sh f =
     \<lparr>screen_width = sw, screen_height = sh, half_height = sh div 2,
      fov = f, half_fov = f / 2\<rparr>"

text \<open>
  \<^verbatim>\<open>Raycaster._cast_ray\<close> (lines 156-234) is modelled in the order of its text: the
  quantities fixed before the loop (\<open>dda_consts\<close>), the variables the loop updates
  (\<open>dda_state\<close>), one iteration of the loop, the loop, and the derivations after it.
\<close>

record dda_consts =
  delta_dist_x :: pyfloat
  delta_dist_y :: pyfloat
  step_x :: int
  step_y :: int

record dda_state =
  side_dist_x :: pyfloat
  side_dist_y :: pyfloat
  map_col :: int
  map_row :: int
  hit_side :: int
  wall_hit :: bool
  depth :: int

text \<open>Lines 172-173: \<^verbatim>\<open>abs(1 / d) if d != 0 else float('inf')\<close>.\<close>

definition delta_dist :: "real \<Rightarrow> pyfloat" where
  "delta_dist d = (if d \<noteq> 0 then Fin \<bar>1 / d\<bar> else PInf)"

text \<open>Lines 163-193: everything before the loop.\<close>

definition ray_consts :: "real \<Rightarrow> dda_consts" where
  "ray_consts ray_angle =
     (let ray_dx = cos ray_angle; ray_dy = sin ray_angle
      in \<lparr>delta_dist_x = delta_dist ray_dx, delta_dist_y = delta_dist ray_dy,
          step_x = (if ray_dx < 0 then - 1 else 1),
          step_y = (if ray_dy < 0 then - 1 else 1)\<rparr>)"

definition ray_start :: "real \<Rightarrow> player \<Rightarrow> dda_state" where
  "ray_start ray_angle p =
     (let ray_dx = cos ray_angle; ray_dy = sin ray_angle;
          tx = player_x p / real_of_int TILE_SIZE;
          ty = player_y p / real_of_int TILE_SIZE;
          mc = \<lfloor>tx\<rfloor>; mr = \<lfloor>ty\<rfloor>
      in \<lparr>side_dist_x =
            (if ray_dx < 0 then f_mul (Fin (tx - real_of_int mc)) (delta_dist ray_dx)
             else f_mul (Fin (real_of_int mc + 1 - tx)) (delta_dist ray_dx)),
          side_dist_y =
            (if ray_dy < 0 then f_mul (Fin (ty - real_of_int mr)) (delta_dist ray_dy)
             else f_mul (Fin (real_of_int mr + 1 - ty)) (delta_dist ray_dy)),
          map_col = mc, map_row = mr, hit_side = 0, wall_hit = False, depth = 0\<rparr>)"

text \<open>Lines 196-203: step along whichever axis has the nearer crossing.\<close>

definition dda_advance :: "dda_consts \<Rightarrow> dda_state \<Rightarrow> dda_state" where
  "dda_advance c st =
     (if f_lt (side_dist_x st) (side_dist_y st)
      then st\<lparr>side_dist_x := f_add (side_dist_x st) (delta_dist_x c),
              map_col := map_col st + step_x c, hit_side := 0\<rparr>
      else st\<lparr>side_dist_y := f_add (side_dist_y st) (delta_dist_y c),
              map_row := map_row st + step_y c, hit_side := 1\<rparr>)"

text \<open>Lines 195-207: the body of the loop.\<close>

definition dda_step :: "game_map \<Rightarrow> dda_consts \<Rightarrow> dda_state \<Rightarrow> py_error + dda_state" where
  "dda_step gm c st =
     (let st1 = dda_advance c st
      in ebind (get_tile gm (map_col st1) (map_row st1))
           (\<lambda>t. Inr (st1\<lparr>wall_hit := (if t = WALL then True else wall_hit st1),
                          depth := depth st1 + 1\<rparr>)))"

text \<open>Line 194: \<^verbatim>\<open>while not wall_hit and depth < self.MAX_DEPTH\<close>.\<close>

function dda_loop :: "game_map \<Rightarrow> dda_consts \<Rightarrow> int \<Rightarrow> dda_state \<Rightarrow> py_error + dda_state" where
  "dda_loop gm c max_depth st =
     (if \<not> wall_hit st \<and> depth st < max_depth
      then (case dda_step gm c st of
              Inl e \<Rightarrow> Inl e
            | Inr st' \<Rightarrow> dda_loop gm c max_depth st')
      else Inr st)"
  by pat_completeness auto
termination
proof (relation "measure (\<lambda>(gm, c, max_depth, st). nat (max_depth - depth st))")
  show "wf (measure (\<lambda>(gm, c, max_depth, st). nat (max_depth - depth st)))"
    by simp
next
  fix gm :: game_map and c :: dda_consts and max_depth :: int and st st' :: dda_state
  assume run: "\<not> wall_hit st \<and> depth st < max_depth" and step: "dda_step gm c st = Inr st'"
  from step have "depth st' = depth st + 1"
    by (auto simp: dda_step_def dda_advance_def ebind_def Let_def split: sum.splits if_splits)
  with run show "((gm, c, max_depth, st'), (gm, c, max_depth, st))
      \<in> measure (\<lambda>(gm, c, max_depth, st). nat (max_depth - depth st))"
    by simp
qed

declare dda_loop.simps [simp del]

text \<open>Lines 210-216: the distance of the hit, clamped from below.\<close>

definition perp_dist :: "dda_consts \<Rightarrow> dda_state \<Rightarrow> pyfloat" where
  "perp_dist c st =
     py_max
       (if hit_side st = 0
        then f_mul (f_sub (side_dist_x st) (delta_dist_x c)) (Fin (real_of_int TILE_SIZE))
        else f_mul (f_sub (side_dist_y st) (delta_dist_y c)) (Fin (real_of_int TILE_SIZE)))
       (Fin 0.0001)"

text \<open>
  Lines 163-216 together: the clamped distance and the side that was hit. The depth limit is
  an argument here; \<open>cast_ray\<close> passes \<open>MAX_DEPTH\<close>.
\<close>

definition ray_perp_dist :: "int \<Rightarrow> real \<Rightarrow> player \<Rightarrow> game_map \<Rightarrow> py_error + pyfloat \<times> int" where
  "ray_perp_dist max_depth ray_angle p gm =
     ebind (dda_loop gm (ray_consts ray_angle) max_depth (ray_start ray_angle p))
       (\<lambda>st. Inr (perp_dist (ray_consts ray_angle) st, hit_side st))"

text \<open>Lines 220-226: the toggle between the two distances.\<close>

definition ray_distance :: "bool \<Rightarrow> real \<Rightarrow> real \<Rightarrow> pyfloat \<Rightarrow> py_error + pyfloat" where
  "ray_distance fisheye_correction ray_angle pl_angle pd =
     (if fisheye_correction then Inr pd
      else f_div pd (Fin (cos (ray_angle - pl_angle))))"

text \<open>Line 228.\<close>

definition wall_height_of :: "raycaster \<Rightarrow> pyfloat \<Rightarrow> py_error + int" where
  "wall_height_of r distance =
     ebind (f_div (Fin (real_of_int TILE_SIZE)) distance)
       (\<lambda>q. py_int (f_mul q (Fin (real_of_int (screen_height r)))))"

text \<open>Lines 231-232.\<close>

definition shade_of :: "pyfloat \<Rightarrow> py_error + int" where
  "shade_of distance =
     ebind (f_div distance (Fin (real_of_int TILE_SIZE)))
       (\<lambda>tile_dist. ebind (py_int (f_mul tile_dist (Fin 18)))
          (\<lambda>k. Inr (max 40 (min 255 (255 - k)))))"

text \<open>
  The whole of \<^verbatim>\<open>_cast_ray\<close>, with the module constant \<^verbatim>\<open>FISHEYE_CORRECTION\<close> and the
  class constant \<^verbatim>\<open>MAX_DEPTH\<close> as arguments, and then with their values in the source.
\<close>

definition cast_ray_cfg ::
  "bool \<Rightarrow> int \<Rightarrow> raycaster \<Rightarrow> real \<Rightarrow> real \<Rightarrow> player \<Rightarrow> game_map \<Rightarrow> py_error + int \<times> int \<times> int" where
  "cast_ray_cfg fisheye_correction max_depth r ray_angle pl_angle p gm =
     ebind (ray_perp_dist max_depth ray_angle p gm)
       (\<lambda>(pd, side).
          ebind (ray_distance fisheye_correction ray_angle pl_angle pd)
            (\<lambda>distance.
               ebind (wall_height_of r distance)
                 (\<lambda>wall_height.
                    ebind (shade_of distance)
                      (\<lambda>shade. Inr (wall_height, shade, side)))))"

definition cast_ray ::
  "raycaster \<Rightarrow> real \<Rightarrow> real \<Rightarrow> player \<Rightarrow> game_map \<Rightarrow> py_error + int \<times> int \<times> int" where
  "cast_ray = cast_ray_cfg FISHEYE_CORRECTION MAX_DEPTH"

text \<open>Lines 145-152: the body of the loop of \<^verbatim>\<open>cast_all\<close>, for one column.\<close>

definition cast_column ::
  "raycaster \<Rightarrow> player \<Rightarrow> game_map \<Rightarrow> real \<Rightarrow> real \<Rightarrow> int \<Rightarrow> py_error + int \<times> int" where
  "cast_column r p gm start_angle angle_step col =
     (let ray_angle = start_angle + real_of_int col * angle_step
      in ebind (cast_ray r ray_angle (player_angle p) p gm)
           (\<lambda>(wall_height, shade, side).
              Inr (wall_height,
                   if side = 1 then trunc (real_of_int shade * 0.75) else shade)))"

text \<open>The loop over the columns, appending to \<^verbatim>\<open>ray_results\<close>.\<close>

fun cast_columns ::
  "raycaster \<Rightarrow> player \<Rightarrow> game_map \<Rightarrow> real \<Rightarrow> real \<Rightarrow> int list \<Rightarrow> (int \<times> int) list
     \<Rightarrow> py_error + (int \<times> int) list" where
  "cast_columns r p gm start_angle angle_step [] ray_results = Inr ray_results"
| "cast_columns r p gm start_angle angle_step (col # cols) ray_results =
     (case cast_column r p gm start_angle angle_step col of
        Inl e \<Rightarrow> Inl e
      | Inr res \<Rightarrow> cast_columns r p gm start_angle angle_step cols (ray_results @ [res]))"

text \<open>
  \<^verbatim>\<open>Raycaster.cast_all\<close> (lines 135-154). \<^verbatim>\<open>self.fov / self.screen_width\<close> raises when the
  width is zero; \<^verbatim>\<open>range\<close> of a negative width is empty.
\<close>

definition cast_all :: "raycaster \<Rightarrow> player \<Rightarrow> game_map \<Rightarrow> py_error + (int \<times> int) list" where
  "cast_all r p gm =
     (if screen_width r = 0 then Inl ZeroDivisionError
      else let angle_step = fov r / real_of_int (screen_width r);
               start_angle = player_angle p - half_fov r
           in cast_columns r p gm start_angle angle_step [0..screen_width r - 1] [])"

section \<open>Auxiliary notions for the proofs\<close>

text \<open>The tile \<open>get_tile\<close> returns on a well-formed map, without the exception layer.\<close>

definition tile_at :: "game_map \<Rightarrow> int \<Rightarrow> int \<Rightarrow> int" where
  "tile_at gm col row =
     (if 0 \<le> row \<and> row < num_rows gm \<and> 0 \<le> col \<and> col < num_cols gm
      then grid gm ! nat row ! nat col else WALL)"

text \<open>
  The invariant of the traversal loop. On each axis the step distance and the accumulated
  side distance are both infinite or both finite, and then the side distance is at most
  one step distance more than the steps made so far.
\<close>

definition axis_ok :: "pyfloat \<Rightarrow> pyfloat \<Rightarrow> int \<Rightarrow> bool" where
  "axis_ok d sd n \<longleftrightarrow>
     (d = PInf \<and> sd = PInf) \<or>
     (\<exists>a v. d = Fin a \<and> sd = Fin v \<and> 0 < a \<and> 0 \<le> v \<and> v \<le> (real_of_int n + 1) * a)"

text \<open>The value lines 210-213 scale by the tile size.\<close>

definition hit_val :: "dda_consts \<Rightarrow> dda_state \<Rightarrow> pyfloat" where
  "hit_val c s =
     (if hit_side s = 0 then f_sub (side_dist_x s) (delta_dist_x c)
      else f_sub (side_dist_y s) (delta_dist_y c))"

text \<open>One of the two step distances is at most \<open>3/2\<close> tiles.\<close>

definition short_axis :: "dda_consts \<Rightarrow> bool" where
  "short_axis c \<longleftrightarrow>
     (\<exists>a. delta_dist_x c = Fin a \<and> 0 < a \<and> a \<le> 3 / 2) \<or>
     (\<exists>a. delta_dist_y c = Fin a \<and> 0 < a \<and> a \<le> 3 / 2)"

definition dda_inv :: "dda_consts \<Rightarrow> dda_state \<Rightarrow> bool" where
  "dda_inv c s \<longleftrightarrow>
     0 \<le> depth s \<and>
     axis_ok (delta_dist_x c) (side_dist_x s) (depth s) \<and>
     axis_ok (delta_dist_y c) (side_dist_y s) (depth s) \<and>
     (hit_side s = 0 \<or> hit_side s = 1) \<and>
     (wall_hit s \<longrightarrow> 1 \<le> depth s) \<and>
     (1 \<le> depth s \<longrightarrow>
        (\<exists>q. hit_val c s = Fin q \<and> 0 \<le> q \<and> q \<le> real_of_int (depth s) * (3 / 2)))"

text \<open>
  A map whose outer ring is \<open>WALL\<close> and whose interior is \<open>EMPTY\<close>, three tiles by three,
  built as \<open>Map_init\<close> is.
\<close>

definition ring_layout :: "int list list" where
  "ring_layout =
    [[1, 1, 1, 1, 1],
     [1, 0, 0, 0, 1],
     [1, 0, 0, 0, 1],
     [1, 0, 0, 0, 1],
     [1, 1, 1, 1, 1]]"

definition ring_map :: game_map where
  "ring_map = Map_of ring_layout"

section \<open>Facts about the map\<close>

lemma get_tile_out_of_bounds:
  assumes "\<not> (0 \<le> row \<and> row < num_rows m \<and> 0 \<le> col \<and> col < num_cols m)"
  shows "get_tile m col row = Inr WALL"
  using assms by (auto simp: get_tile_def)

lemma wf_map_row:
  assumes "wf_map m" "0 \<le> row" "row < num_rows m"
  shows "py_index (grid m) row = Inr (grid m ! nat row)"
    and "int (length (grid m ! nat row)) = num_cols m"
proof -
  from assms have n: "nat row < length (grid m)" unfolding wf_map_def by linarith
  from assms show "py_index (grid m) row = Inr (grid m ! nat row)"
    unfolding wf_map_def py_index_def Let_def by simp
  from n have "grid m ! nat row \<in> set (grid m)" by simp
  with assms(1) show "int (length (grid m ! nat row)) = num_cols m"
    unfolding wf_map_def by blast
qed

lemma get_tile_in_bounds:
  assumes "wf_map m" "0 \<le> row" "row < num_rows m" "0 \<le> col" "col < num_cols m"
  shows "get_tile m col row = Inr (grid m ! nat row ! nat col)"
  using assms(2-5) wf_map_row[OF assms(1-3)]
  by (simp add: get_tile_def py_index_def Let_def)

lemma wf_Map_init: "wf_map Map_init"
  by (simp add: wf_map_def Map_init_def Map_of_def layout_def)

lemma ebind_simps [simp]:
  "ebind (Inr a) f = f a"
  "ebind (Inl e) f = Inl e"
  by (simp_all add: ebind_def)

lemma get_tile_wf:
  assumes "wf_map gm"
  shows "get_tile gm col row = Inr (tile_at gm col row)"
proof (cases "0 \<le> row \<and> row < num_rows gm \<and> 0 \<le> col \<and> col < num_cols gm")
  case True
  then show ?thesis using get_tile_in_bounds[OF assms, of row col] by (simp add: tile_at_def)
next
  case False
  then show ?thesis using get_tile_out_of_bounds[of row gm col] by (auto simp: tile_at_def)
qed

lemma is_wall_wf:
  assumes "wf_map gm"
  shows "is_wall gm wx wy = Inr (tile_at gm \<lfloor>wx / 64\<rfloor> \<lfloor>wy / 64\<rfloor> = WALL)"
  by (simp add: is_wall_def get_tile_wf[OF assms] TILE_SIZE_def)

lemma not_and_not_Inr [simp]:
  "not_and_not (Inr a) (Inr b) = Inr (\<not> a \<and> \<not> b)"
  by (simp add: not_and_not_def)

section \<open>The tile lookup\<close>

text \<open>
  Claim C5. On a well-formed map, for every integer pair \<open>(col, row)\<close>: inside the bounds
  \<open>get_tile\<close> returns exactly the tile stored in the grid at that coordinate (row first,
  then column), and everywhere else it returns \<open>WALL\<close>. No lookup raises.
\<close>

theorem get_tile_contract:
  assumes "wf_map m"
  shows "(0 \<le> col \<and> col < num_cols m \<and> 0 \<le> row \<and> row < num_rows m
            \<longrightarrow> get_tile m col row = Inr (grid m ! nat row ! nat col)) \<and>
         (\<not> (0 \<le> col \<and> col < num_cols m \<and> 0 \<le> row \<and> row < num_rows m)
            \<longrightarrow> get_tile m col row = Inr WALL)"
proof (intro conjI impI)
  assume "0 \<le> col \<and> col < num_cols m \<and> 0 \<le> row \<and> row < num_rows m"
  then show "get_tile m col row = Inr (grid m ! nat row ! nat col)"
    using get_tile_in_bounds[OF assms, of row col] by simp
next
  assume "\<not> (0 \<le> col \<and> col < num_cols m \<and> 0 \<le> row \<and> row < num_rows m)"
  then show "get_tile m col row = Inr WALL"
    using get_tile_out_of_bounds[of row m col] by blast
qed

text \<open>
  The built-in map at an open tile, at a wall tile, and at the two out-of-bounds
  coordinates of \<^verbatim>\<open>test_map\<close>.
\<close>

theorem get_tile_contract_witness:
  "wf_map Map_init \<and> (0::int) \<le> 3 \<and> 3 < num_cols Map_init \<and> (0::int) \<le> 2 \<and> 2 < num_rows Map_init
   \<and> get_tile Map_init 3 2 = Inr EMPTY
   \<and> get_tile Map_init 2 2 = Inr WALL
   \<and> \<not> (0 \<le> (- 1 :: int))
   \<and> get_tile Map_init (- 1) 0 = Inr WALL
   \<and> \<not> (100 < num_rows Map_init)
   \<and> get_tile Map_init 100 100 = Inr WALL"
  using get_tile_contract[OF wf_Map_init, of 3 2] get_tile_contract[OF wf_Map_init, of 2 2]
    get_tile_contract[OF wf_Map_init, of "- 1" 0] get_tile_contract[OF wf_Map_init, of 100 100]
    wf_Map_init
  by (simp add: Map_init_def Map_of_def layout_def EMPTY_def WALL_def)

section \<open>Movement and collision\<close>

text \<open>
  Claim C10. The collision test of \<open>try_move\<close> looks at the destination only. On the built-in
  map the player at the open position \<open>(96, 160)\<close> asks for \<open>delta_x = 128\<close>, twice the tile
  size: the move is committed and ends at \<open>(224, 160)\<close>, although the point \<open>(160, 160)\<close> of
  the straight path between the two lies in a wall tile.
\<close>

theorem try_move_tunnels:
  "real_of_int TILE_SIZE < 128 \<and>
   is_wall Map_init 96 160 = Inr False \<and>
   try_move (Player_init 96 160 0) 128 0 Map_init = Inr (Player_init 224 160 0) \<and>
   (96::real) < 160 \<and> (160::real) < 96 + 128 \<and>
   is_wall Map_init 160 160 = Inr True"
  by (simp add: try_move_def Player_init_def MARGIN_def is_wall_def TILE_SIZE_def WALL_def
      get_tile_def py_index_def Map_init_def Map_of_def layout_def Let_def)

lemma floor_probe:
  fixes y :: real
  shows "\<lfloor>y / 64\<rfloor> = \<lfloor>(y - 10) / 64\<rfloor> \<or> \<lfloor>y / 64\<rfloor> = \<lfloor>(y + 10) / 64\<rfloor>"
proof -
  let ?a = "\<lfloor>(y - 10) / 64\<rfloor>" and ?b = "\<lfloor>(y + 10) / 64\<rfloor>" and ?c = "\<lfloor>y / 64\<rfloor>"
  have ac: "?a \<le> ?c" by (rule floor_mono) simp
  have cb: "?c \<le> ?b" by (rule floor_mono) simp
  have aux: "(t + 10) / 64 < z + 2" if "(t - 10) / 64 < z + 1" for t z :: real
    using that by (simp add: field_simps)
  have "(y - 10) / 64 < real_of_int ?a + 1" by linarith
  then have "(y + 10) / 64 < real_of_int ?a + 2" by (rule aux)
  then have "(y + 10) / 64 < real_of_int (?a + 2)" by simp
  then have "?b < ?a + 2" by (simp only: floor_less_iff)
  with ac cb show ?thesis by linarith
qed

text \<open>
  Claim C6. On a well-formed map \<open>try_move\<close> always returns a player, with the angle
  untouched. On the X axis: either both probes at the displaced \<open>x\<close> (at \<open>y - MARGIN\<close> and
  \<open>y + MARGIN\<close>) are outside walls and \<open>x\<close> has changed by exactly \<open>dx\<close>, or one of them is
  in a wall and \<open>x\<close> is unchanged. On the Y axis the same holds for \<open>dy\<close>, with the probes
  taken at the already updated \<open>x\<close> (minus and plus \<open>MARGIN\<close>).
\<close>

theorem try_move_axes:
  assumes "wf_map gm"
  shows "\<exists>p'. try_move p dx dy gm = Inr p' \<and> player_angle p' = player_angle p \<and>
     ((is_wall gm (player_x p + dx) (player_y p - MARGIN) = Inr False \<and>
       is_wall gm (player_x p + dx) (player_y p + MARGIN) = Inr False \<and>
       player_x p' = player_x p + dx) \<or>
      ((is_wall gm (player_x p + dx) (player_y p - MARGIN) = Inr True \<or>
        is_wall gm (player_x p + dx) (player_y p + MARGIN) = Inr True) \<and>
       player_x p' = player_x p)) \<and>
     ((is_wall gm (player_x p' - MARGIN) (player_y p + dy) = Inr False \<and>
       is_wall gm (player_x p' + MARGIN) (player_y p + dy) = Inr False \<and>
       player_y p' = player_y p + dy) \<or>
      ((is_wall gm (player_x p' - MARGIN) (player_y p + dy) = Inr True \<or>
        is_wall gm (player_x p' + MARGIN) (player_y p + dy) = Inr True) \<and>
       player_y p' = player_y p))"
  by (auto simp: try_move_def Let_def is_wall_wf[OF assms])

text \<open>
  On the built-in map, from the centre of tile \<open>(1, 1)\<close>: one pixel to the right is open and
  is taken; 200 pixels up is outside the map, hence a wall, and is refused.
\<close>

theorem try_move_axes_witness:
  "wf_map Map_init \<and>
   try_move (Player_init 96 96 0) 1 (- 200) Map_init = Inr (Player_init 97 96 0) \<and>
   is_wall Map_init (96 + 1) (96 - MARGIN) = Inr False \<and>
   is_wall Map_init (96 + 1) (96 + MARGIN) = Inr False \<and>
   is_wall Map_init (97 - MARGIN) (96 + (- 200)) = Inr True"
  using try_move_axes[OF wf_Map_init, of "Player_init 96 96 0" 1 "- 200"] wf_Map_init
  by (simp add: try_move_def Player_init_def MARGIN_def is_wall_def TILE_SIZE_def WALL_def
      get_tile_def py_index_def Map_init_def Map_of_def layout_def Let_def)

text \<open>
  Claim C9. On a well-formed map, a player whose position is not inside a wall tile is not
  inside a wall tile after \<open>try_move\<close>, whatever the displacement: the tile of the new centre
  is, on each axis, the tile of one of the two probes of the move that was committed.
\<close>

theorem try_move_keeps_out_of_walls:
  assumes "wf_map gm" and "is_wall gm (player_x p) (player_y p) = Inr False"
  shows "\<exists>p'. try_move p dx dy gm = Inr p' \<and>
              is_wall gm (player_x p') (player_y p') = Inr False"
proof -
  define x1 where "x1 = (if tile_at gm \<lfloor>(player_x p + dx) / 64\<rfloor> \<lfloor>(player_y p - 10) / 64\<rfloor> \<noteq> WALL \<and>
        tile_at gm \<lfloor>(player_x p + dx) / 64\<rfloor> \<lfloor>(player_y p + 10) / 64\<rfloor> \<noteq> WALL
      then player_x p + dx else player_x p)"
  define y1 where "y1 = (if tile_at gm \<lfloor>(x1 - 10) / 64\<rfloor> \<lfloor>(player_y p + dy) / 64\<rfloor> \<noteq> WALL \<and>
        tile_at gm \<lfloor>(x1 + 10) / 64\<rfloor> \<lfloor>(player_y p + dy) / 64\<rfloor> \<noteq> WALL
      then player_y p + dy else player_y p)"
  have start: "tile_at gm \<lfloor>player_x p / 64\<rfloor> \<lfloor>player_y p / 64\<rfloor> \<noteq> WALL"
    using assms(2) by (simp add: is_wall_wf[OF assms(1)])
  have mid: "tile_at gm \<lfloor>x1 / 64\<rfloor> \<lfloor>player_y p / 64\<rfloor> \<noteq> WALL"
    using start floor_probe[of "player_y p"] by (auto simp: x1_def)
  have fin: "tile_at gm \<lfloor>x1 / 64\<rfloor> \<lfloor>y1 / 64\<rfloor> \<noteq> WALL"
    using mid floor_probe[of x1] by (auto simp: y1_def)
  have "try_move p dx dy gm = Inr (p\<lparr>player_x := x1, player_y := y1\<rparr>)"
    by (simp add: try_move_def Let_def is_wall_wf[OF assms(1)] MARGIN_def x1_def y1_def)
  with fin show ?thesis by (simp add: is_wall_wf[OF assms(1)])
qed

text \<open>
  On the built-in map, from the centre of tile \<open>(1, 1)\<close>: the move to the left is refused,
  the move down by 30 pixels is taken, and the new position is in the open.
\<close>

theorem try_move_keeps_out_of_walls_witness:
  "wf_map Map_init \<and> is_wall Map_init 96 96 = Inr False \<and>
   try_move (Player_init 96 96 0) (- 200) 30 Map_init = Inr (Player_init 96 126 0) \<and>
   is_wall Map_init 96 126 = Inr False"
  using try_move_keeps_out_of_walls[OF wf_Map_init, of "Player_init 96 96 0" "- 200" 30] wf_Map_init
  by (simp add: try_move_def Player_init_def MARGIN_def is_wall_def TILE_SIZE_def WALL_def
      get_tile_def py_index_def Map_init_def Map_of_def layout_def Let_def)

section \<open>The traversal loop\<close>

lemma dda_step_wf:
  assumes "wf_map gm"
  shows "dda_step gm c st =
     Inr ((dda_advance c st)\<lparr>
        wall_hit := (tile_at gm (map_col (dda_advance c st)) (map_row (dda_advance c st)) = WALL
                     \<or> wall_hit st),
        depth := depth st + 1\<rparr>)"
  by (simp add: dda_step_def Let_def get_tile_wf[OF assms] dda_advance_def)

lemma dda_loop_stop:
  "wall_hit st \<or> max_depth \<le> depth st \<Longrightarrow> dda_loop gm c max_depth st = Inr st"
  by (subst dda_loop.simps) auto

lemma dda_loop_unfold:
  "\<not> wall_hit st \<Longrightarrow> depth st < max_depth \<Longrightarrow> dda_step gm c st = Inr st1 \<Longrightarrow>
   dda_loop gm c max_depth st = dda_loop gm c max_depth st1"
  by (subst dda_loop.simps) simp

text \<open>
  The invariant rule of the loop on a well-formed map: the loop returns, in a state that
  satisfies every invariant of the body and the negation of the loop condition.
\<close>

lemma dda_loop_rule:
  assumes "wf_map gm"
    and "\<And>s s'. I s \<Longrightarrow> \<not> wall_hit s \<Longrightarrow> depth s < md \<Longrightarrow> dda_step gm c s = Inr s' \<Longrightarrow> I s'"
    and "I st"
  shows "\<exists>st'. dda_loop gm c md st = Inr st' \<and> I st' \<and> (wall_hit st' \<or> md \<le> depth st')"
  using assms
proof (induction gm c md st rule: dda_loop.induct)
  case (1 gm c md st)
  show ?case
  proof (cases "\<not> wall_hit st \<and> depth st < md")
    case True
    obtain st1 where st1: "dda_step gm c st = Inr st1"
      using dda_step_wf[OF "1.prems"(1)] by blast
    have "I st1" using "1.prems"(2)[OF "1.prems"(3) _ _ st1] True by blast
    from "1.IH"[OF True st1 "1.prems"(1) "1.prems"(2) this]
    show ?thesis using dda_loop_unfold[of st md gm c st1] True st1 by simp
  next
    case False
    then show ?thesis using "1.prems"(3) dda_loop_stop[of st md gm c] by auto
  qed
qed

lemma dda_loop_next:
  assumes "wf_map gm" "\<not> wall_hit st" "depth st < max_depth"
  shows "dda_loop gm c max_depth st = dda_loop gm c max_depth
     ((dda_advance c st)\<lparr>
        wall_hit := (tile_at gm (map_col (dda_advance c st)) (map_row (dda_advance c st)) = WALL
                     \<or> wall_hit st),
        depth := depth st + 1\<rparr>)"
  using dda_loop_unfold[OF assms(2,3) dda_step_wf[OF assms(1)]] .

lemma tile_at_Map_init:
  "tile_at Map_init col row =
     (if 0 \<le> row \<and> row < 16 \<and> 0 \<le> col \<and> col < 16 then layout ! nat row ! nat col else 1)"
  by (simp add: tile_at_def Map_init_def Map_of_def layout_def WALL_def)

lemma ray_consts_steps:
  "step_x (ray_consts a) = 1 \<or> step_x (ray_consts a) = - 1"
  "step_y (ray_consts a) = 1 \<or> step_y (ray_consts a) = - 1"
  by (simp_all add: ray_consts_def Let_def)

lemma dda_step_one_cell:
  assumes "dda_step gm c s = Inr s'"
    and "step_x c = 1 \<or> step_x c = - 1" and "step_y c = 1 \<or> step_y c = - 1"
  shows "depth s' = depth s + 1 \<and>
         \<bar>map_col s' - map_col s\<bar> + \<bar>map_row s' - map_row s\<bar> = 1"
  using assms
  by (auto simp: dda_step_def dda_advance_def ebind_def Let_def split: sum.splits if_splits)

lemma dda_step_wall_hit:
  assumes "dda_step gm c s = Inr s'" and "\<not> wall_hit s"
  shows "wall_hit s' \<longleftrightarrow> get_tile gm (map_col s') (map_row s') = Inr WALL"
  using assms
  by (auto simp: dda_step_def dda_advance_def ebind_def Let_def split: sum.splits if_splits)

text \<open>
  Claim C3. On a well-formed map, for every ray angle, viewer position and depth limit
  \<open>max_depth \<ge> 0\<close>, the traversal loop returns. The number of iterations it has made,
  \<open>depth\<close>, is at most \<open>max_depth\<close>; the cell it ends in is at most that many cells from the
  viewer's cell; it has stopped either in a \<open>WALL\<close> cell or after exactly \<open>max_depth\<close>
  iterations; and every iteration counts one step and moves the cell by exactly one along
  exactly one axis.
\<close>

theorem dda_loop_terminates:
  assumes "wf_map gm" and "0 \<le> max_depth"
  shows "\<exists>st'. dda_loop gm (ray_consts ray_angle) max_depth (ray_start ray_angle p) = Inr st' \<and>
      0 \<le> depth st' \<and> depth st' \<le> max_depth \<and>
      \<bar>map_col st' - \<lfloor>player_x p / real_of_int TILE_SIZE\<rfloor>\<bar> +
        \<bar>map_row st' - \<lfloor>player_y p / real_of_int TILE_SIZE\<rfloor>\<bar> \<le> depth st' \<and>
      (if wall_hit st' then get_tile gm (map_col st') (map_row st') = Inr WALL
       else depth st' = max_depth) \<and>
      (\<forall>s s'. dda_step gm (ray_consts ray_angle) s = Inr s' \<longrightarrow>
         depth s' = depth s + 1 \<and> \<bar>map_col s' - map_col s\<bar> + \<bar>map_row s' - map_row s\<bar> = 1)"
proof -
  let ?c = "ray_consts ray_angle" and ?st = "ray_start ray_angle p"
  define I where "I s \<longleftrightarrow> 0 \<le> depth s \<and> depth s \<le> max_depth \<and>
      \<bar>map_col s - map_col ?st\<bar> + \<bar>map_row s - map_row ?st\<bar> \<le> depth s \<and>
      (wall_hit s \<longrightarrow> get_tile gm (map_col s) (map_row s) = Inr WALL)" for s :: dda_state
  have init: "I ?st"
    using assms(2) by (simp add: I_def ray_start_def Let_def)
  have pres: "I s'" if "I s" "\<not> wall_hit s" "depth s < max_depth" "dda_step gm ?c s = Inr s'" for s s'
  proof -
    from dda_step_one_cell[OF that(4) ray_consts_steps]
    have d: "depth s' = depth s + 1"
      and m: "\<bar>map_col s' - map_col s\<bar> + \<bar>map_row s' - map_row s\<bar> = 1" by simp_all
    from dda_step_wall_hit[OF that(4) that(2)]
    have w: "wall_hit s' \<longrightarrow> get_tile gm (map_col s') (map_row s') = Inr WALL" by simp
    from that(1) have "0 \<le> depth s"
      and "\<bar>map_col s - map_col ?st\<bar> + \<bar>map_row s - map_row ?st\<bar> \<le> depth s"
      by (simp_all add: I_def)
    with d m w that(3) show ?thesis unfolding I_def by linarith
  qed
  have "\<exists>st'. dda_loop gm ?c max_depth ?st = Inr st' \<and> I st' \<and>
          (wall_hit st' \<or> max_depth \<le> depth st')"
  proof (rule dda_loop_rule[where I = I and st = "?st", OF assms(1) _ init])
    fix s s'
    assume "I s" "\<not> wall_hit s" "depth s < max_depth" "dda_step gm ?c s = Inr s'"
    then show "I s'" by (rule pres)
  qed
  then obtain st' where res: "dda_loop gm ?c max_depth ?st = Inr st'" and inv: "I st'"
    and ex: "wall_hit st' \<or> max_depth \<le> depth st'" by blast
  have start: "map_col ?st = \<lfloor>player_x p / real_of_int TILE_SIZE\<rfloor>"
      "map_row ?st = \<lfloor>player_y p / real_of_int TILE_SIZE\<rfloor>"
    by (simp_all add: ray_start_def Let_def)
  have one: "\<forall>s s'. dda_step gm ?c s = Inr s' \<longrightarrow>
         depth s' = depth s + 1 \<and> \<bar>map_col s' - map_col s\<bar> + \<bar>map_row s' - map_row s\<bar> = 1"
    using dda_step_one_cell[OF _ ray_consts_steps] by blast
  from inv ex have "0 \<le> depth st'" "depth st' \<le> max_depth"
    "\<bar>map_col st' - map_col ?st\<bar> + \<bar>map_row st' - map_row ?st\<bar> \<le> depth st'"
    "if wall_hit st' then get_tile gm (map_col st') (map_row st') = Inr WALL
       else depth st' = max_depth"
    by (auto simp: I_def)
  with res one show ?thesis unfolding start by blast
qed

text \<open>
  On the built-in map, looking east from the centre of tile \<open>(1, 1)\<close> with the depth limit
  of the source: the loop stops in the wall cell \<open>(15, 1)\<close> after 14 iterations.
\<close>

theorem dda_loop_terminates_witness:
  "wf_map Map_init \<and> 0 \<le> MAX_DEPTH \<and>
   dda_loop Map_init (ray_consts 0) MAX_DEPTH (ray_start 0 (Player_init 96 96 0)) =
     Inr \<lparr>side_dist_x = Fin (29 / 2), side_dist_y = PInf, map_col = 15, map_row = 1,
          hit_side = 0, wall_hit = True, depth = 14\<rparr> \<and>
   get_tile Map_init 15 1 = Inr WALL \<and> 14 \<le> MAX_DEPTH"
  using dda_loop_terminates[OF wf_Map_init, of MAX_DEPTH 0 "Player_init 96 96 0"] wf_Map_init
  by (simp add: dda_loop_next[OF wf_Map_init] dda_loop_stop ray_consts_def ray_start_def
      Player_init_def delta_dist_def TILE_SIZE_def Let_def inf_of_sign_def dda_advance_def
      tile_at_Map_init layout_def WALL_def MAX_DEPTH_def get_tile_wf[OF wf_Map_init])

section \<open>Height and shade\<close>

lemma trunc_mono: "x \<le> y \<Longrightarrow> trunc x \<le> trunc y"
proof -
  assume xy: "x \<le> y"
  have "\<lceil>x\<rceil> \<le> \<lfloor>y\<rfloor>" if "x < 0" "0 \<le> y"
  proof -
    from that have "\<lceil>x\<rceil> \<le> 0" "0 \<le> \<lfloor>y\<rfloor>" by (simp_all add: ceiling_le_iff)
    then show ?thesis by linarith
  qed
  with xy show ?thesis
    by (auto simp: trunc_def intro: floor_mono ceiling_mono)
qed

lemma wall_height_of_Fin:
  "d \<noteq> 0 \<Longrightarrow> wall_height_of r (Fin d) =
     Inr (trunc (real_of_int TILE_SIZE / d * real_of_int (screen_height r)))"
  by (simp add: wall_height_of_def)

lemma shade_of_Fin:
  "shade_of (Fin d) = Inr (max 40 (min 255 (255 - trunc (d / real_of_int TILE_SIZE * 18))))"
  by (simp add: shade_of_def TILE_SIZE_def)

text \<open>
  Claim C8 says that a larger corrected distance gives a strictly smaller wall slice. With
  the screen of the source (height 720) the distances 864 and 865 (the ray to the east along
  row 1 of the built-in map, from \<open>x = 96\<close> and from \<open>x = 95\<close>) both give the height 53:
  the quotient is truncated to an integer.
\<close>

theorem derivations_strict_counterexample:
  "(864::real) < 865 \<and>
   wall_height_of (Raycaster_init SCREEN_WIDTH SCREEN_HEIGHT FOV) (Fin 864) = Inr 53 \<and>
   wall_height_of (Raycaster_init SCREEN_WIDTH SCREEN_HEIGHT FOV) (Fin 865) = Inr 53"
  by (simp add: wall_height_of_def Raycaster_init_def SCREEN_HEIGHT_def TILE_SIZE_def trunc_def)

text \<open>
  Claim C8, amended. For two corrected distances \<open>0 < d1 < d2\<close> and a screen height that is
  not negative, both derivations return for both distances, the wall slice height derived
  from \<open>d2\<close> is not larger than the one derived from \<open>d1\<close>, and the shade derived from
  \<open>d2\<close> is not larger than the one derived from \<open>d1\<close>.
\<close>

theorem derivations_monotone:
  assumes "0 < d1" and "d1 < d2" and "0 \<le> screen_height r"
  shows "\<exists>h1 h2 s1 s2.
     wall_height_of r (Fin d1) = Inr h1 \<and> wall_height_of r (Fin d2) = Inr h2 \<and> h2 \<le> h1 \<and>
     shade_of (Fin d1) = Inr s1 \<and> shade_of (Fin d2) = Inr s2 \<and> s2 \<le> s1"
proof -
  let ?h = "real_of_int (screen_height r)" and ?T = "real_of_int TILE_SIZE"
  have T: "0 < ?T" by (simp add: TILE_SIZE_def)
  from assms have "?T / d2 \<le> ?T / d1"
    using T by (simp add: frac_le)
  moreover from assms(3) have "0 \<le> ?h" by simp
  ultimately have "?T / d2 * ?h \<le> ?T / d1 * ?h"
    by (rule mult_right_mono)
  then have h: "trunc (?T / d2 * ?h) \<le> trunc (?T / d1 * ?h)" by (rule trunc_mono)
  from assms T have "d1 / ?T * 18 \<le> d2 / ?T * 18"
    by (simp add: divide_right_mono)
  then have "trunc (d1 / ?T * 18) \<le> trunc (d2 / ?T * 18)" by (rule trunc_mono)
  then have s: "max 40 (min 255 (255 - trunc (d2 / ?T * 18)))
      \<le> max (40::int) (min 255 (255 - trunc (d1 / ?T * 18)))" by linarith
  from assms have "d1 \<noteq> 0" "d2 \<noteq> 0" by simp_all
  with h s show ?thesis by (simp add: wall_height_of_Fin shade_of_Fin)
qed

text \<open>One tile and two tiles away, on the screen of the source.\<close>

theorem derivations_monotone_witness:
  "(0::real) < 64 \<and> (64::real) < 128 \<and>
   0 \<le> screen_height (Raycaster_init SCREEN_WIDTH SCREEN_HEIGHT FOV) \<and>
   wall_height_of (Raycaster_init SCREEN_WIDTH SCREEN_HEIGHT FOV) (Fin 64) = Inr 720 \<and>
   wall_height_of (Raycaster_init SCREEN_WIDTH SCREEN_HEIGHT FOV) (Fin 128) = Inr 360 \<and>
   shade_of (Fin 64) = Inr 237 \<and> shade_of (Fin 128) = Inr 219"
  using derivations_monotone[of 64 128 "Raycaster_init SCREEN_WIDTH SCREEN_HEIGHT FOV"]
  by (simp add: wall_height_of_def shade_of_def Raycaster_init_def SCREEN_HEIGHT_def
      TILE_SIZE_def trunc_def)

section \<open>The distance of the hit\<close>

lemma short_axis_ray_consts: "short_axis (ray_consts a)"
proof (cases "2 / 3 \<le> \<bar>cos a\<bar>")
  case True
  then have "cos a \<noteq> 0" by auto
  moreover from True have "1 / \<bar>cos a\<bar> \<le> 3 / 2"
    by (simp add: field_simps)
  ultimately show ?thesis
    by (simp add: short_axis_def ray_consts_def Let_def delta_dist_def abs_divide)
next
  case False
  then have "\<not> \<bar>2 / 3 :: real\<bar> \<le> \<bar>cos a\<bar>" by simp
  moreover have "\<bar>2 / 3 :: real\<bar> \<le> \<bar>cos a\<bar> \<longleftrightarrow> (2 / 3)\<^sup>2 \<le> (cos a)\<^sup>2"
    by (rule abs_le_square_iff)
  ultimately have "\<not> (2 / 3)\<^sup>2 \<le> (cos a)\<^sup>2" by blast
  then have "(cos a)\<^sup>2 < 4 / 9" by (simp add: power2_eq_square)
  moreover have "(sin a)\<^sup>2 + (cos a)\<^sup>2 = 1" by simp
  ultimately have "(2 / 3)\<^sup>2 \<le> (sin a)\<^sup>2" by (simp add: power2_eq_square)
  moreover have "\<bar>2 / 3 :: real\<bar> \<le> \<bar>sin a\<bar> \<longleftrightarrow> (2 / 3)\<^sup>2 \<le> (sin a)\<^sup>2"
    by (rule abs_le_square_iff)
  ultimately have "\<bar>2 / 3 :: real\<bar> \<le> \<bar>sin a\<bar>" by blast
  then have s: "2 / 3 \<le> \<bar>sin a\<bar>" by simp
  then have "sin a \<noteq> 0" by auto
  moreover from s have "1 / \<bar>sin a\<bar> \<le> 3 / 2"
    by (simp add: field_simps)
  ultimately show ?thesis
    by (simp add: short_axis_def ray_consts_def Let_def delta_dist_def abs_divide)
qed

lemma axis_ok_fin:
  assumes "0 < a" "0 \<le> f" "f \<le> 1"
  shows "axis_ok (Fin a) (Fin (f * a)) 0"
proof -
  from assms have "f * a \<le> 1 * a" by (simp only: mult_right_mono less_imp_le)
  moreover from assms have "0 \<le> f * a" by simp
  ultimately show ?thesis using assms(1) by (simp add: axis_ok_def)
qed

lemma axis_ok_start:
  assumes "0 \<le> f1" "f1 \<le> 1" "0 < f2" "f2 \<le> 1"
  shows "axis_ok (delta_dist d)
     (if d < 0 then f_mul (Fin f1) (delta_dist d) else f_mul (Fin f2) (delta_dist d)) 0"
proof (cases "d = 0")
  case True
  with assms show ?thesis by (simp add: axis_ok_def delta_dist_def inf_of_sign_def)
next
  case False
  then have a: "0 < \<bar>1 / d\<bar>" by simp
  from False have dd: "delta_dist d = Fin \<bar>1 / d\<bar>" by (simp add: delta_dist_def)
  from assms have "0 \<le> f2" by simp
  from axis_ok_fin[OF a assms(1,2)] axis_ok_fin[OF a this assms(4)]
  show ?thesis by (cases "d < 0") (simp_all only: dd f_mul.simps if_True if_False)
qed

lemma dda_inv_start: "dda_inv (ray_consts a) (ray_start a p)"
proof -
  define tx where "tx = player_x p / real_of_int TILE_SIZE"
  define ty where "ty = player_y p / real_of_int TILE_SIZE"
  have x: "axis_ok (delta_dist (cos a))
     (if cos a < 0 then f_mul (Fin (tx - real_of_int \<lfloor>tx\<rfloor>)) (delta_dist (cos a))
      else f_mul (Fin (real_of_int \<lfloor>tx\<rfloor> + 1 - tx)) (delta_dist (cos a))) 0"
    by (rule axis_ok_start) linarith+
  have y: "axis_ok (delta_dist (sin a))
     (if sin a < 0 then f_mul (Fin (ty - real_of_int \<lfloor>ty\<rfloor>)) (delta_dist (sin a))
      else f_mul (Fin (real_of_int \<lfloor>ty\<rfloor> + 1 - ty)) (delta_dist (sin a))) 0"
    by (rule axis_ok_start) linarith+
  from x y show ?thesis
    by (auto simp: dda_inv_def ray_consts_def ray_start_def Let_def tx_def ty_def
        split: if_splits)
qed

lemma f_lt_PInf [simp]: "f_lt PInf y = False"
  by (cases y) simp_all

lemma axis_ok_mono:
  assumes "axis_ok d sd n" "0 \<le> n" "n \<le> n'"
  shows "axis_ok d sd n'"
proof -
  have "v \<le> (real_of_int n' + 1) * a" if "v \<le> (real_of_int n + 1) * a" "0 < a" for v a :: real
  proof -
    from assms(3) have "real_of_int n + 1 \<le> real_of_int n' + 1" by simp
    with that(2) have "(real_of_int n + 1) * a \<le> (real_of_int n' + 1) * a"
      by (simp only: mult_right_mono less_imp_le)
    with that(1) show ?thesis by linarith
  qed
  with assms(1) show ?thesis unfolding axis_ok_def by blast
qed

lemma bound_step:
  fixes v a k :: real
  assumes "v \<le> k * a" "a \<le> 3 / 2" "0 \<le> k"
  shows "v \<le> k * (3 / 2)"
  using mult_left_mono[OF assms(2,3)] assms(1) by linarith

lemma dda_inv_advance_x:
  assumes sa: "short_axis c" and inv: "dda_inv c s" and lt: "f_lt (side_dist_x s) (side_dist_y s)"
  shows "\<exists>a v. delta_dist_x c = Fin a \<and> side_dist_x s = Fin v \<and> 0 < a \<and> 0 \<le> v \<and>
               v \<le> (real_of_int (depth s) + 1) * a \<and>
               v \<le> (real_of_int (depth s) + 1) * (3 / 2)"
proof -
  from inv have n: "0 \<le> depth s" and ax: "axis_ok (delta_dist_x c) (side_dist_x s) (depth s)"
    and ay: "axis_ok (delta_dist_y c) (side_dist_y s) (depth s)"
    by (simp_all add: dda_inv_def)
  from lt have "side_dist_x s \<noteq> PInf" by auto
  with ax obtain a v where av: "delta_dist_x c = Fin a" "side_dist_x s = Fin v" "0 < a" "0 \<le> v"
      "v \<le> (real_of_int (depth s) + 1) * a"
    unfolding axis_ok_def by blast
  from n have k: "0 \<le> real_of_int (depth s) + 1" by simp
  have "v \<le> (real_of_int (depth s) + 1) * (3 / 2)"
  proof (cases "a \<le> 3 / 2")
    case True
    from bound_step[OF av(5) True k] show ?thesis .
  next
    case False
    with sa av(1) obtain b where b: "delta_dist_y c = Fin b" "0 < b" "b \<le> 3 / 2"
      unfolding short_axis_def by auto
    with ay obtain w where w: "side_dist_y s = Fin w" "w \<le> (real_of_int (depth s) + 1) * b"
      unfolding axis_ok_def by auto
    from lt av(2) w(1) have "v < w" by simp
    with bound_step[OF w(2) b(3) k] show ?thesis by linarith
  qed
  with av show ?thesis by blast
qed

lemma dda_inv_advance_y:
  assumes sa: "short_axis c" and inv: "dda_inv c s" and lt: "\<not> f_lt (side_dist_x s) (side_dist_y s)"
  shows "\<exists>b w. delta_dist_y c = Fin b \<and> side_dist_y s = Fin w \<and> 0 < b \<and> 0 \<le> w \<and>
               w \<le> (real_of_int (depth s) + 1) * b \<and>
               w \<le> (real_of_int (depth s) + 1) * (3 / 2)"
proof -
  from inv have n: "0 \<le> depth s" and ax: "axis_ok (delta_dist_x c) (side_dist_x s) (depth s)"
    and ay: "axis_ok (delta_dist_y c) (side_dist_y s) (depth s)"
    by (simp_all add: dda_inv_def)
  have "side_dist_y s \<noteq> PInf"
  proof
    assume inf: "side_dist_y s = PInf"
    with ay have "delta_dist_y c = PInf" unfolding axis_ok_def by auto
    with sa obtain a where "delta_dist_x c = Fin a" unfolding short_axis_def by auto
    with ax obtain v where "side_dist_x s = Fin v" unfolding axis_ok_def by auto
    with inf lt show False by simp
  qed
  with ay obtain b w where bw: "delta_dist_y c = Fin b" "side_dist_y s = Fin w" "0 < b" "0 \<le> w"
      "w \<le> (real_of_int (depth s) + 1) * b"
    unfolding axis_ok_def by blast
  from n have k: "0 \<le> real_of_int (depth s) + 1" by simp
  have "w \<le> (real_of_int (depth s) + 1) * (3 / 2)"
  proof (cases "b \<le> 3 / 2")
    case True
    from bound_step[OF bw(5) True k] show ?thesis .
  next
    case False
    with sa bw(1) obtain a where a: "delta_dist_x c = Fin a" "0 < a" "a \<le> 3 / 2"
      unfolding short_axis_def by auto
    with ax obtain v where v: "side_dist_x s = Fin v" "v \<le> (real_of_int (depth s) + 1) * a"
      unfolding axis_ok_def by auto
    from lt bw(2) v(1) have "w \<le> v" by simp
    with bound_step[OF v(2) a(3) k] show ?thesis by linarith
  qed
  with bw show ?thesis by blast
qed

lemma dda_inv_step:
  assumes sa: "short_axis c" and inv: "dda_inv c s" and step: "dda_step gm c s = Inr s'"
  shows "dda_inv c s'"
proof -
  from inv have n: "0 \<le> depth s" and ax: "axis_ok (delta_dist_x c) (side_dist_x s) (depth s)"
    and ay: "axis_ok (delta_dist_y c) (side_dist_y s) (depth s)"
    by (simp_all add: dda_inv_def)
  from step obtain t where s': "s' = (dda_advance c s)\<lparr>wall_hit := (if t = WALL then True
      else wall_hit (dda_advance c s)), depth := depth (dda_advance c s) + 1\<rparr>"
    by (auto simp: dda_step_def Let_def ebind_def split: sum.splits)
  have d: "depth s' = depth s + 1" unfolding s' by (simp add: dda_advance_def)
  from n have le: "depth s \<le> depth s + 1" by simp
  have r: "real_of_int (depth s + 1) = real_of_int (depth s) + 1" by simp
  show ?thesis
  proof (cases "f_lt (side_dist_x s) (side_dist_y s)")
    case True
    from dda_inv_advance_x[OF sa inv True] obtain a v where av:
      "delta_dist_x c = Fin a" "side_dist_x s = Fin v" "0 < a" "0 \<le> v"
      "v \<le> (real_of_int (depth s) + 1) * a" "v \<le> (real_of_int (depth s) + 1) * (3 / 2)"
      by blast
    have sx: "side_dist_x s' = Fin (v + a)" and sy: "side_dist_y s' = side_dist_y s"
      and hs: "hit_side s' = 0"
      unfolding s' using True av by (simp_all add: dda_advance_def)
    have hv: "hit_val c s' = Fin v" by (simp add: hit_val_def hs sx av f_sub_def)
    have "v + a \<le> (real_of_int (depth s + 1) + 1) * a" using av(5) by (simp add: algebra_simps)
    with av have x': "axis_ok (delta_dist_x c) (side_dist_x s') (depth s')"
      unfolding d sx axis_ok_def by simp
    have y': "axis_ok (delta_dist_y c) (side_dist_y s') (depth s')"
      unfolding d sy by (rule axis_ok_mono[OF ay n le])
    from av(4,6) n x' y' hv hs show ?thesis
      unfolding dda_inv_def d r by simp
  next
    case False
    from dda_inv_advance_y[OF sa inv False] obtain b w where bw:
      "delta_dist_y c = Fin b" "side_dist_y s = Fin w" "0 < b" "0 \<le> w"
      "w \<le> (real_of_int (depth s) + 1) * b" "w \<le> (real_of_int (depth s) + 1) * (3 / 2)"
      by blast
    have sy: "side_dist_y s' = Fin (w + b)" and sx: "side_dist_x s' = side_dist_x s"
      and hs: "hit_side s' = 1"
      unfolding s' using False bw by (simp_all add: dda_advance_def)
    have hv: "hit_val c s' = Fin w" by (simp add: hit_val_def hs sy bw f_sub_def)
    have "w + b \<le> (real_of_int (depth s + 1) + 1) * b" using bw(5) by (simp add: algebra_simps)
    with bw have y': "axis_ok (delta_dist_y c) (side_dist_y s') (depth s')"
      unfolding d sy axis_ok_def by simp
    have x': "axis_ok (delta_dist_x c) (side_dist_x s') (depth s')"
      unfolding d sx by (rule axis_ok_mono[OF ax n le])
    from bw(4,6) n x' y' hv hs show ?thesis
      unfolding dda_inv_def d r by simp
  qed
qed

lemma ray_loop_result:
  assumes "wf_map gm" and "1 \<le> md"
  shows "\<exists>st'. dda_loop gm (ray_consts a) md (ray_start a p) = Inr st' \<and>
           dda_inv (ray_consts a) st' \<and> 1 \<le> depth st' \<and> depth st' \<le> md"
proof -
  let ?c = "ray_consts a" and ?st = "ray_start a p"
  define I where "I s \<longleftrightarrow> dda_inv ?c s \<and> depth s \<le> md" for s :: dda_state
  have init: "I ?st"
    using assms(2) dda_inv_start[of a p] by (simp add: I_def ray_start_def Let_def)
  have "\<exists>st'. dda_loop gm ?c md ?st = Inr st' \<and> I st' \<and> (wall_hit st' \<or> md \<le> depth st')"
  proof (rule dda_loop_rule[where I = I and st = "?st", OF assms(1) _ init])
    fix s s'
    assume s: "I s" "\<not> wall_hit s" "depth s < md" "dda_step gm ?c s = Inr s'"
    from dda_step_one_cell[OF s(4) ray_consts_steps] have "depth s' = depth s + 1" by simp
    with s(3) have "depth s' \<le> md" by simp
    moreover from s(1) have "dda_inv ?c s'"
      using dda_inv_step[OF short_axis_ray_consts _ s(4)] by (simp add: I_def)
    ultimately show "I s'" by (simp add: I_def)
  qed
  then obtain st' where res: "dda_loop gm ?c md ?st = Inr st'" and inv: "dda_inv ?c st'"
    and le: "depth st' \<le> md" and ex: "wall_hit st' \<or> md \<le> depth st'"
    by (auto simp: I_def)
  from inv ex assms(2) have "1 \<le> depth st'" by (auto simp: dda_inv_def)
  with res inv le show ?thesis by blast
qed

lemma perp_dist_hit_val:
  "perp_dist c st = py_max (f_mul (hit_val c st) (Fin (real_of_int TILE_SIZE))) (Fin 0.0001)"
  by (simp add: perp_dist_def hit_val_def)

lemma ray_perp_dist_bounds:
  assumes "wf_map gm" and "1 \<le> md"
  shows "\<exists>pd side. ray_perp_dist md a p gm = Inr (Fin pd, side) \<and>
           1 / 10000 \<le> pd \<and> pd \<le> real_of_int md * 96 \<and> (side = 0 \<or> side = 1)"
proof -
  from ray_loop_result[OF assms] obtain st' where
    res: "dda_loop gm (ray_consts a) md (ray_start a p) = Inr st'"
    and inv: "dda_inv (ray_consts a) st'" and d: "1 \<le> depth st'" "depth st' \<le> md"
    by blast
  from inv d(1) obtain q where q: "hit_val (ray_consts a) st' = Fin q" "0 \<le> q"
      "q \<le> real_of_int (depth st') * (3 / 2)"
    and side: "hit_side st' = 0 \<or> hit_side st' = 1"
    by (auto simp: dda_inv_def)
  from d(2) have "real_of_int (depth st') * (3 / 2) \<le> real_of_int md * (3 / 2)" by simp
  with q(3) have qb: "q * 64 \<le> real_of_int md * 96" by linarith
  define pd where "pd = (if q * 64 < 1 / 10000 then 1 / 10000 else q * 64)"
  have pd: "perp_dist (ray_consts a) st' = Fin pd"
    by (simp add: perp_dist_hit_val q(1) TILE_SIZE_def py_max_def pd_def)
  from assms(2) have "1 / 10000 \<le> real_of_int md * 96" by linarith
  with qb have "1 / 10000 \<le> pd" "pd \<le> real_of_int md * 96" by (simp_all add: pd_def)
  moreover have "ray_perp_dist md a p gm = Inr (Fin pd, hit_side st')"
    by (simp add: ray_perp_dist_def res pd)
  ultimately show ?thesis using side by blast
qed

lemma trunc_ge_1: "1 \<le> x \<Longrightarrow> 1 \<le> trunc x"
  by (simp add: trunc_def le_floor_iff)

lemma cast_ray_result:
  assumes "wf_map gm"
  shows "\<exists>pd wh shd side.
     ray_perp_dist MAX_DEPTH a p gm = Inr (Fin pd, side) \<and>
     1 / 10000 \<le> pd \<and> pd \<le> 1920 \<and>
     cast_ray r a pa p gm = Inr (wh, shd, side) \<and>
     wh = trunc (real_of_int TILE_SIZE / pd * real_of_int (screen_height r)) \<and>
     shd = max 40 (min 255 (255 - trunc (pd / real_of_int TILE_SIZE * 18))) \<and>
     (30 \<le> screen_height r \<longrightarrow> 1 \<le> wh) \<and> 40 \<le> shd \<and> shd \<le> 255 \<and>
     (side = 0 \<or> side = 1)"
proof -
  from ray_perp_dist_bounds[OF assms(1), of MAX_DEPTH a p] obtain pd side where
    pd: "ray_perp_dist MAX_DEPTH a p gm = Inr (Fin pd, side)" "1 / 10000 \<le> pd" "pd \<le> 1920"
      "side = 0 \<or> side = 1"
    by (auto simp: MAX_DEPTH_def)
  let ?h = "real_of_int (screen_height r)"
  define wh where "wh = trunc (real_of_int TILE_SIZE / pd * ?h)"
  define shd where "shd = max 40 (min 255 (255 - trunc (pd / real_of_int TILE_SIZE * 18)))"
  from pd(2) have pos: "0 < pd" by simp
  have "1 \<le> wh" if "30 \<le> screen_height r"
  proof -
    from that have h: "30 \<le> ?h" by simp
    from pos pd(3) have "1 / 30 \<le> 64 / pd" by (simp add: field_simps)
    moreover from pos have "0 \<le> 64 / pd" by simp
    ultimately have "1 / 30 * 30 \<le> 64 / pd * ?h"
      using h by (intro mult_mono) simp_all
    then show ?thesis unfolding wh_def TILE_SIZE_def by (intro trunc_ge_1) simp
  qed
  moreover have "40 \<le> shd" "shd \<le> 255" by (simp_all add: shd_def)
  moreover from pos have "cast_ray r a pa p gm = Inr (wh, shd, side)"
    by (simp add: cast_ray_def cast_ray_cfg_def pd(1) FISHEYE_CORRECTION_def ray_distance_def
        wall_height_of_Fin shade_of_Fin wh_def shd_def)
  ultimately show ?thesis using pd wh_def shd_def by blast
qed

section \<open>The two distances\<close>

lemma ray_distance_centre: "ray_distance False a a pd = ray_distance True a a pd"
  by (cases pd) (simp_all add: ray_distance_def inf_of_sign_def)

text \<open>
  Claim C2. On a well-formed map, for a ray within half the field of view \<open>FOV\<close> of the
  viewer's angle, the loop returns a finite clamped distance \<open>pd\<close>; with the correction on
  the distance used is \<open>pd\<close>, with the correction off it is
  \<open>pd / cos (ray_angle - pl_angle)\<close>, which is never less than \<open>pd\<close>. For the ray at the
  centre (\<open>ray_angle = pl_angle\<close>) the two distances are equal, and so are the two results
  of the whole ray cast.
\<close>

theorem fisheye_modes:
  assumes "wf_map gm" and "\<bar>ray_angle - pl_angle\<bar> \<le> FOV / 2"
  shows "\<exists>pd side. ray_perp_dist MAX_DEPTH ray_angle p gm = Inr (Fin pd, side) \<and>
      ray_distance True ray_angle pl_angle (Fin pd) = Inr (Fin pd) \<and>
      ray_distance False ray_angle pl_angle (Fin pd)
        = Inr (Fin (pd / cos (ray_angle - pl_angle))) \<and>
      pd \<le> pd / cos (ray_angle - pl_angle) \<and>
      (ray_angle = pl_angle \<longrightarrow>
         pd / cos (ray_angle - pl_angle) = pd \<and>
         cast_ray_cfg False MAX_DEPTH r ray_angle pl_angle p gm
           = cast_ray_cfg True MAX_DEPTH r ray_angle pl_angle p gm)"
proof -
  from ray_perp_dist_bounds[OF assms(1), of MAX_DEPTH ray_angle p] obtain pd side where
    pd: "ray_perp_dist MAX_DEPTH ray_angle p gm = Inr (Fin pd, side)" "1 / 10000 \<le> pd"
    by (auto simp: MAX_DEPTH_def)
  let ?d = "ray_angle - pl_angle"
  have "0 < pi" by simp
  moreover from assms(2) have "\<bar>?d\<bar> \<le> pi / 6" by (simp add: FOV_def)
  ultimately have "- (pi / 2) < ?d" "?d < pi / 2" by linarith+
  then have c0: "0 < cos ?d" by (rule cos_gt_zero_pi)
  have c1: "cos ?d \<le> 1" by simp
  from pd(2) have pos: "0 < pd" by simp
  from pos c0 c1 have "pd * cos ?d \<le> pd * 1" by (intro mult_left_mono) simp_all
  with c0 have le: "pd \<le> pd / cos ?d" by (simp add: pos_le_divide_eq)
  have on: "ray_distance True ray_angle pl_angle (Fin pd) = Inr (Fin pd)"
    by (simp add: ray_distance_def)
  from c0 have off: "ray_distance False ray_angle pl_angle (Fin pd) = Inr (Fin (pd / cos ?d))"
    by (simp add: ray_distance_def)
  have "cast_ray_cfg False MAX_DEPTH r ray_angle pl_angle p gm
           = cast_ray_cfg True MAX_DEPTH r ray_angle pl_angle p gm" if "ray_angle = pl_angle"
    unfolding cast_ray_cfg_def that ray_distance_centre ..
  with pd(1) on off le show ?thesis by auto
qed

text \<open>
  On the built-in map, the ray to the east from the centre of tile \<open>(1, 1)\<close>, for a viewer
  looking along the ray and for a viewer turned by \<open>pi / 6\<close>, the edge of the field of view.
\<close>

theorem fisheye_modes_witness:
  "wf_map Map_init \<and> \<bar>0 - pi / 6\<bar> \<le> FOV / 2 \<and> \<bar>0 - 0 :: real\<bar> \<le> FOV / 2 \<and>
   ray_perp_dist MAX_DEPTH 0 (Player_init 96 96 0) Map_init = Inr (Fin 864, 0) \<and>
   ray_distance True 0 (pi / 6) (Fin 864) = Inr (Fin 864) \<and>
   ray_distance False 0 (pi / 6) (Fin 864) = Inr (Fin (864 / (sqrt 3 / 2))) \<and>
   ray_distance False 0 0 (Fin 864) = Inr (Fin 864) \<and>
   (864 :: real) \<le> 864 / (sqrt 3 / 2)"
  using fisheye_modes[OF wf_Map_init, of 0 "pi / 6" "Player_init 96 96 0"]
    fisheye_modes[OF wf_Map_init, of 0 0 "Player_init 96 96 0"] wf_Map_init
  by (simp add: FOV_def ray_perp_dist_def perp_dist_def py_max_def f_sub_def ray_distance_def
      cos_30
      dda_loop_next[OF wf_Map_init] dda_loop_stop ray_consts_def ray_start_def
      Player_init_def delta_dist_def TILE_SIZE_def Let_def inf_of_sign_def dda_advance_def
      tile_at_Map_init layout_def WALL_def MAX_DEPTH_def)

section \<open>All columns\<close>

lemma cast_column_result:
  assumes "wf_map gm"
  shows "\<exists>wh shd side.
     cast_ray r (sa + real_of_int col * stp) (player_angle p) p gm = Inr (wh, shd, side) \<and>
     cast_column r p gm sa stp col
       = Inr (wh, if side = 1 then trunc (real_of_int shd * 0.75) else shd) \<and>
     (30 \<le> screen_height r \<longrightarrow> 1 \<le> wh) \<and> 40 \<le> shd \<and> shd \<le> 255 \<and>
     (side = 0 \<or> side = 1)"
proof -
  from cast_ray_result[OF assms, of "sa + real_of_int col * stp" p r "player_angle p"]
  obtain wh shd side where
    c: "cast_ray r (sa + real_of_int col * stp) (player_angle p) p gm = Inr (wh, shd, side)"
    and b: "30 \<le> screen_height r \<longrightarrow> 1 \<le> wh" "40 \<le> shd" "shd \<le> 255" "side = 0 \<or> side = 1"
    by blast
  from c have "cast_column r p gm sa stp col
       = Inr (wh, if side = 1 then trunc (real_of_int shd * 0.75) else shd)"
    by (simp add: cast_column_def Let_def)
  with c b show ?thesis by blast
qed

lemma cast_columns_all:
  assumes "\<forall>col \<in> set cols. cast_column r p gm sa stp col = Inr (g col)"
  shows "cast_columns r p gm sa stp cols acc = Inr (acc @ map g cols)"
  using assms by (induction cols arbitrary: acc) simp_all

lemma cast_all_entries:
  assumes "wf_map gm" and "0 < screen_width r"
  shows "\<exists>res. cast_all r p gm = Inr res \<and> int (length res) = screen_width r \<and>
           (\<forall>i. 0 \<le> i \<and> i < screen_width r \<longrightarrow>
              cast_column r p gm (player_angle p - half_fov r)
                (fov r / real_of_int (screen_width r)) i = Inr (res ! nat i))"
proof -
  let ?sa = "player_angle p - half_fov r" and ?stp = "fov r / real_of_int (screen_width r)"
  define g where "g col = projr (cast_column r p gm ?sa ?stp col)" for col
  have g: "cast_column r p gm ?sa ?stp col = Inr (g col)" for col
    using cast_column_result[OF assms(1), of r ?sa col ?stp p] by (auto simp: g_def)
  let ?cols = "[0..screen_width r - 1]"
  let ?res = "map g ?cols"
  have "cast_columns r p gm ?sa ?stp ?cols [] = Inr ([] @ ?res)"
    by (rule cast_columns_all) (simp add: g)
  with assms(2) have all: "cast_all r p gm = Inr ?res"
    by (simp add: cast_all_def Let_def)
  from assms(2) have len: "int (length ?res) = screen_width r" by simp
  have "g i = ?res ! nat i" if "0 \<le> i" "i < screen_width r" for i
    using that by (simp add: nth_upto)
  with g have "\<forall>i. 0 \<le> i \<and> i < screen_width r \<longrightarrow>
      cast_column r p gm ?sa ?stp i = Inr (?res ! nat i)" by simp
  with all len show ?thesis by blast
qed

lemma trunc_darken:
  assumes "40 \<le> s" "s \<le> 255"
  shows "30 \<le> trunc (real_of_int s * 0.75)" "trunc (real_of_int s * 0.75) \<le> 191"
proof -
  from assms have "30 \<le> real_of_int s * 0.75" "real_of_int s * 0.75 < 192" by simp_all
  then show "30 \<le> trunc (real_of_int s * 0.75)" "trunc (real_of_int s * 0.75) \<le> 191"
    by (simp_all add: trunc_def le_floor_iff floor_le_iff)
qed

text \<open>
  Two rays of the built-in map, from the centre of tile \<open>(1, 1)\<close> on the screen of the
  source: to the east and to the south the wall is 13.5 tiles away.
\<close>

lemma east_ray:
  "cast_ray (Raycaster_init SCREEN_WIDTH SCREEN_HEIGHT FOV) 0 pa (Player_init 96 96 a0) Map_init
     = Inr (53, 40, 0)"
  by (simp add: cast_ray_def cast_ray_cfg_def FISHEYE_CORRECTION_def
      ray_perp_dist_def perp_dist_def py_max_def f_sub_def ray_distance_def
      wall_height_of_def shade_of_def trunc_def Raycaster_init_def SCREEN_HEIGHT_def
      dda_loop_next[OF wf_Map_init] dda_loop_stop ray_consts_def ray_start_def
      Player_init_def delta_dist_def TILE_SIZE_def Let_def inf_of_sign_def dda_advance_def
      tile_at_Map_init layout_def WALL_def MAX_DEPTH_def)

lemma south_ray:
  "cast_ray (Raycaster_init SCREEN_WIDTH SCREEN_HEIGHT FOV) (pi / 2) pa
     (Player_init 96 96 a0) Map_init = Inr (53, 40, 1)"
  by (simp add: cast_ray_def cast_ray_cfg_def FISHEYE_CORRECTION_def
      ray_perp_dist_def perp_dist_def py_max_def f_sub_def ray_distance_def
      wall_height_of_def shade_of_def trunc_def Raycaster_init_def SCREEN_HEIGHT_def
      dda_loop_next[OF wf_Map_init] dda_loop_stop ray_consts_def ray_start_def
      Player_init_def delta_dist_def TILE_SIZE_def Let_def inf_of_sign_def dda_advance_def
      tile_at_Map_init layout_def WALL_def MAX_DEPTH_def)

lemma centre_angle:
  "a - FOV / 2 + real_of_int 640 * (FOV / real_of_int SCREEN_WIDTH) = a"
  by (simp add: FOV_def SCREEN_WIDTH_def)

text \<open>
  Claim C4. On a well-formed map, for every player, a raycaster built with a positive
  screen width \<open>sw\<close>, a screen height \<open>sh\<close> of at least 30 (the source has 720) and any
  field of view \<open>f\<close> returns from \<open>cast_all\<close> a list of exactly \<open>sw\<close> pairs. Entry \<open>i\<close>
  is the result of the ray cast at the angle
  \<open>player_angle p - f / 2 + i * (f / sw)\<close>, with the shade multiplied by 0.75 and truncated
  when the side hit is 1; its wall height is a positive integer and its shade is an integer
  between 0 and 255.
\<close>

theorem cast_all_contract:
  assumes "wf_map gm" and "0 < sw" and "30 \<le> sh"
  shows "\<exists>res. cast_all (Raycaster_init sw sh f) p gm = Inr res \<and> int (length res) = sw \<and>
     (\<forall>i. 0 \<le> i \<and> i < sw \<longrightarrow>
        (\<exists>wh shd side.
           cast_ray (Raycaster_init sw sh f)
             (player_angle p - f / 2 + real_of_int i * (f / real_of_int sw))
             (player_angle p) p gm = Inr (wh, shd, side) \<and>
           res ! nat i = (wh, if side = 1 then trunc (real_of_int shd * 0.75) else shd) \<and>
           0 < fst (res ! nat i) \<and> 0 \<le> snd (res ! nat i) \<and> snd (res ! nat i) \<le> 255))"
proof -
  let ?r = "Raycaster_init sw sh f"
  have r: "screen_width ?r = sw" "screen_height ?r = sh" "fov ?r = f" "half_fov ?r = f / 2"
    by (simp_all add: Raycaster_init_def)
  from cast_all_entries[of gm ?r p] assms(1,2) obtain res where
    res: "cast_all ?r p gm = Inr res" "int (length res) = sw"
    and col: "\<And>i. 0 \<le> i \<Longrightarrow> i < sw \<Longrightarrow>
        cast_column ?r p gm (player_angle p - f / 2) (f / real_of_int sw) i = Inr (res ! nat i)"
    unfolding r by blast
  have "\<exists>wh shd side.
           cast_ray ?r (player_angle p - f / 2 + real_of_int i * (f / real_of_int sw))
             (player_angle p) p gm = Inr (wh, shd, side) \<and>
           res ! nat i = (wh, if side = 1 then trunc (real_of_int shd * 0.75) else shd) \<and>
           0 < fst (res ! nat i) \<and> 0 \<le> snd (res ! nat i) \<and> snd (res ! nat i) \<le> 255"
    if i: "0 \<le> i" "i < sw" for i
  proof -
    from cast_column_result[OF assms(1), of ?r "player_angle p - f / 2" i "f / real_of_int sw" p]
    obtain wh shd side where
      c: "cast_ray ?r (player_angle p - f / 2 + real_of_int i * (f / real_of_int sw))
             (player_angle p) p gm = Inr (wh, shd, side)"
      and e: "cast_column ?r p gm (player_angle p - f / 2) (f / real_of_int sw) i
             = Inr (wh, if side = 1 then trunc (real_of_int shd * 0.75) else shd)"
      and b: "1 \<le> wh" "40 \<le> shd" "shd \<le> 255"
      using assms(3) unfolding r by blast
    from e col[OF i] have eq: "res ! nat i
        = (wh, if side = 1 then trunc (real_of_int shd * 0.75) else shd)" by simp
    from trunc_darken[OF b(2,3)] b have "0 < fst (res ! nat i)" "0 \<le> snd (res ! nat i)"
      "snd (res ! nat i) \<le> 255" unfolding eq by auto
    with c eq show ?thesis by blast
  qed
  with res show ?thesis by blast
qed

text \<open>
  The screen and field of view of the source on the built-in map, the player at the centre
  of tile \<open>(1, 1)\<close> looking east: 1280 entries, and the one of column 640, the ray along
  the viewing direction, is \<open>(53, 40)\<close>.
\<close>

theorem cast_all_contract_witness:
  "wf_map Map_init \<and> 0 < SCREEN_WIDTH \<and> 30 \<le> SCREEN_HEIGHT \<and>
   \<not> isl (cast_all (Raycaster_init SCREEN_WIDTH SCREEN_HEIGHT FOV) (Player_init 96 96 0) Map_init) \<and>
   int (length (projr (cast_all (Raycaster_init SCREEN_WIDTH SCREEN_HEIGHT FOV)
      (Player_init 96 96 0) Map_init))) = SCREEN_WIDTH \<and>
   projr (cast_all (Raycaster_init SCREEN_WIDTH SCREEN_HEIGHT FOV)
      (Player_init 96 96 0) Map_init) ! 640 = (53, 40)"
proof -
  let ?r = "Raycaster_init SCREEN_WIDTH SCREEN_HEIGHT FOV" and ?p = "Player_init 96 96 0"
  have sw: "0 < SCREEN_WIDTH" and sh: "30 \<le> SCREEN_HEIGHT"
    by (simp_all add: SCREEN_WIDTH_def SCREEN_HEIGHT_def)
  from cast_all_contract[OF wf_Map_init sw sh, of FOV ?p] obtain res where
    res: "cast_all ?r ?p Map_init = Inr res" "int (length res) = SCREEN_WIDTH"
    and ent: "\<And>i. 0 \<le> i \<and> i < SCREEN_WIDTH \<Longrightarrow> \<exists>wh shd side.
        cast_ray ?r (player_angle ?p - FOV / 2 + real_of_int i * (FOV / real_of_int SCREEN_WIDTH))
          (player_angle ?p) ?p Map_init = Inr (wh, shd, side) \<and>
        res ! nat i = (wh, if side = 1 then trunc (real_of_int shd * 0.75) else shd)"
    by blast
  have "0 \<le> (640::int) \<and> 640 < SCREEN_WIDTH" by (simp add: SCREEN_WIDTH_def)
  moreover have pa: "player_angle ?p = 0" by (simp add: Player_init_def)
  ultimately have "res ! 640 = (53, 40)"
    using ent[of 640] unfolding pa centre_angle by (auto simp: east_ray)
  with res sw sh wf_Map_init show ?thesis by simp
qed

text \<open>
  Claim C7 says that every shade delivered by \<open>cast_all\<close> is in \<open>[40, 255]\<close>. On the
  built-in map, with the screen of the source, the player at the centre of tile \<open>(1, 1)\<close>
  looks south: the ray of column 640 hits a north/south face 13.5 tiles away, its shade is
  clamped to 40 and then darkened to 30.
\<close>

theorem shade_below_40_counterexample:
  "cast_column (Raycaster_init SCREEN_WIDTH SCREEN_HEIGHT FOV) (Player_init 96 96 (pi / 2)) Map_init
     (pi / 2 - FOV / 2) (FOV / real_of_int SCREEN_WIDTH) 640 = Inr (53, 30) \<and>
   \<not> isl (cast_all (Raycaster_init SCREEN_WIDTH SCREEN_HEIGHT FOV)
      (Player_init 96 96 (pi / 2)) Map_init) \<and>
   snd (projr (cast_all (Raycaster_init SCREEN_WIDTH SCREEN_HEIGHT FOV)
      (Player_init 96 96 (pi / 2)) Map_init) ! 640) = 30 \<and>
   \<not> (40 \<le> (30::int))"
proof -
  let ?r = "Raycaster_init SCREEN_WIDTH SCREEN_HEIGHT FOV" and ?p = "Player_init 96 96 (pi / 2)"
  have r: "screen_width ?r = SCREEN_WIDTH" "fov ?r = FOV" "half_fov ?r = FOV / 2"
    "player_angle ?p = pi / 2"
    by (simp_all add: Raycaster_init_def Player_init_def)
  have col: "cast_column ?r ?p Map_init (pi / 2 - FOV / 2) (FOV / real_of_int SCREEN_WIDTH) 640
      = Inr (53, 30)"
    unfolding cast_column_def Let_def centre_angle
    by (simp add: south_ray r trunc_def)
  have "0 < screen_width ?r" by (simp add: Raycaster_init_def SCREEN_WIDTH_def)
  from cast_all_entries[OF wf_Map_init this, of ?p] obtain res where
    res: "cast_all ?r ?p Map_init = Inr res"
    and ent: "\<And>i. 0 \<le> i \<and> i < SCREEN_WIDTH \<Longrightarrow>
      cast_column ?r ?p Map_init (pi / 2 - FOV / 2) (FOV / real_of_int SCREEN_WIDTH) i
        = Inr (res ! nat i)"
    unfolding r by blast
  have "0 \<le> (640::int) \<and> 640 < SCREEN_WIDTH" by (simp add: SCREEN_WIDTH_def)
  from ent[OF this] col have "res ! 640 = (53, 30)" by simp
  with res col show ?thesis by simp
qed

text \<open>
  Claim C7, amended. On a well-formed map, for a raycaster with a positive screen width,
  every entry of the result of \<open>cast_all\<close> has a shade between 30 and 255: the shade
  \<open>shd\<close> of the ray cast is between 40 and 255; for side 0 it is delivered as it is, and for
  side 1 it is delivered as \<open>shd * 0.75\<close> truncated, which is between 30 and 191.
\<close>

theorem cast_all_shades:
  assumes "wf_map gm" and "0 < sw"
  shows "\<exists>res. cast_all (Raycaster_init sw sh f) p gm = Inr res \<and> int (length res) = sw \<and>
     (\<forall>i. 0 \<le> i \<and> i < sw \<longrightarrow>
        (\<exists>wh shd side.
           cast_ray (Raycaster_init sw sh f)
             (player_angle p - f / 2 + real_of_int i * (f / real_of_int sw))
             (player_angle p) p gm = Inr (wh, shd, side) \<and>
           40 \<le> shd \<and> shd \<le> 255 \<and>
           snd (res ! nat i) = (if side = 1 then trunc (real_of_int shd * 0.75) else shd) \<and>
           (if side = 1 then 30 \<le> snd (res ! nat i) \<and> snd (res ! nat i) \<le> 191
            else 40 \<le> snd (res ! nat i) \<and> snd (res ! nat i) \<le> 255) \<and>
           30 \<le> snd (res ! nat i) \<and> snd (res ! nat i) \<le> 255))"
proof -
  let ?r = "Raycaster_init sw sh f"
  have r: "screen_width ?r = sw" "screen_height ?r = sh" "fov ?r = f" "half_fov ?r = f / 2"
    by (simp_all add: Raycaster_init_def)
  from cast_all_entries[of gm ?r p] assms(1,2) obtain res where
    res: "cast_all ?r p gm = Inr res" "int (length res) = sw"
    and col: "\<And>i. 0 \<le> i \<Longrightarrow> i < sw \<Longrightarrow>
        cast_column ?r p gm (player_angle p - f / 2) (f / real_of_int sw) i = Inr (res ! nat i)"
    unfolding r by blast
  have "\<exists>wh shd side.
           cast_ray ?r (player_angle p - f / 2 + real_of_int i * (f / real_of_int sw))
             (player_angle p) p gm = Inr (wh, shd, side) \<and>
           40 \<le> shd \<and> shd \<le> 255 \<and>
           snd (res ! nat i) = (if side = 1 then trunc (real_of_int shd * 0.75) else shd) \<and>
           (if side = 1 then 30 \<le> snd (res ! nat i) \<and> snd (res ! nat i) \<le> 191
            else 40 \<le> snd (res ! nat i) \<and> snd (res ! nat i) \<le> 255) \<and>
           30 \<le> snd (res ! nat i) \<and> snd (res ! nat i) \<le> 255"
    if i: "0 \<le> i" "i < sw" for i
  proof -
    from cast_column_result[OF assms(1), of ?r "player_angle p - f / 2" i "f / real_of_int sw" p]
    obtain wh shd side where
      c: "cast_ray ?r (player_angle p - f / 2 + real_of_int i * (f / real_of_int sw))
             (player_angle p) p gm = Inr (wh, shd, side)"
      and e: "cast_column ?r p gm (player_angle p - f / 2) (f / real_of_int sw) i
             = Inr (wh, if side = 1 then trunc (real_of_int shd * 0.75) else shd)"
      and b: "40 \<le> shd" "shd \<le> 255"
      by blast
    from e col[OF i] have eq: "res ! nat i
        = (wh, if side = 1 then trunc (real_of_int shd * 0.75) else shd)" by simp
    from trunc_darken[OF b] b have
      "snd (res ! nat i) = (if side = 1 then trunc (real_of_int shd * 0.75) else shd)"
      "if side = 1 then 30 \<le> snd (res ! nat i) \<and> snd (res ! nat i) \<le> 191
            else 40 \<le> snd (res ! nat i) \<and> snd (res ! nat i) \<le> 255"
      "30 \<le> snd (res ! nat i)" "snd (res ! nat i) \<le> 255"
      unfolding eq by auto
    with c b show ?thesis by blast
  qed
  with res show ?thesis by blast
qed

text \<open>The same ray to the south: the shade 40 of the ray cast is delivered as 30.\<close>

theorem cast_all_shades_witness:
  "wf_map Map_init \<and> 0 < SCREEN_WIDTH \<and>
   \<not> isl (cast_all (Raycaster_init SCREEN_WIDTH SCREEN_HEIGHT FOV)
      (Player_init 96 96 (pi / 2)) Map_init) \<and>
   int (length (projr (cast_all (Raycaster_init SCREEN_WIDTH SCREEN_HEIGHT FOV)
      (Player_init 96 96 (pi / 2)) Map_init))) = SCREEN_WIDTH \<and>
   snd (projr (cast_all (Raycaster_init SCREEN_WIDTH SCREEN_HEIGHT FOV)
      (Player_init 96 96 (pi / 2)) Map_init) ! 640) = trunc (real_of_int 40 * 0.75) \<and>
   trunc (real_of_int 40 * 0.75) = 30"
proof -
  let ?r = "Raycaster_init SCREEN_WIDTH SCREEN_HEIGHT FOV" and ?p = "Player_init 96 96 (pi / 2)"
  have sw: "0 < SCREEN_WIDTH" by (simp add: SCREEN_WIDTH_def)
  from cast_all_shades[OF wf_Map_init sw, of SCREEN_HEIGHT FOV ?p] obtain res where
    res: "cast_all ?r ?p Map_init = Inr res" "int (length res) = SCREEN_WIDTH"
    and ent: "\<And>i. 0 \<le> i \<and> i < SCREEN_WIDTH \<Longrightarrow> \<exists>wh shd side.
        cast_ray ?r (player_angle ?p - FOV / 2 + real_of_int i * (FOV / real_of_int SCREEN_WIDTH))
          (player_angle ?p) ?p Map_init = Inr (wh, shd, side) \<and>
        snd (res ! nat i) = (if side = 1 then trunc (real_of_int shd * 0.75) else shd)"
    by blast
  have "0 \<le> (640::int) \<and> 640 < SCREEN_WIDTH" by (simp add: SCREEN_WIDTH_def)
  moreover have pa: "player_angle ?p = pi / 2" by (simp add: Player_init_def)
  ultimately have "snd (res ! 640) = trunc (real_of_int 40 * 0.75)"
    using ent[of 640] unfolding pa centre_angle by (auto simp: south_ray)
  moreover have "trunc (real_of_int 40 * 0.75) = 30" by (simp add: trunc_def)
  ultimately show ?thesis using res sw wf_Map_init by simp
qed

section \<open>Rays along an axis\<close>

lemma walk_x:
  assumes wf: "wf_map gm"
    and c: "delta_dist_x c = Fin 1" "step_x c = ux"
    and st: "side_dist_x st = Fin (1 / 2)" "side_dist_y st = PInf" "map_col st = c0"
      "map_row st = r0" "depth st = 0" "\<not> wall_hit st"
    and k: "1 \<le> k" "k \<le> md"
    and open_cells: "\<forall>j. 1 \<le> j \<and> j < k \<longrightarrow> tile_at gm (c0 + j * ux) r0 \<noteq> WALL"
    and wall_cell: "tile_at gm (c0 + k * ux) r0 = WALL"
  shows "\<exists>st'. dda_loop gm c md st = Inr st' \<and> hit_side st' = 0 \<and> depth st' = k \<and>
           side_dist_x st' = Fin (1 / 2 + real_of_int k) \<and> map_col st' = c0 + k * ux \<and>
           map_row st' = r0 \<and> wall_hit st'"
proof -
  define I where "I s \<longleftrightarrow> 0 \<le> depth s \<and> depth s \<le> k \<and>
      side_dist_x s = Fin (1 / 2 + real_of_int (depth s)) \<and> side_dist_y s = PInf \<and>
      map_col s = c0 + depth s * ux \<and> map_row s = r0 \<and>
      (1 \<le> depth s \<longrightarrow> hit_side s = 0) \<and> (wall_hit s \<longleftrightarrow> depth s = k)" for s :: dda_state
  have init: "I st" using st k by (simp add: I_def)
  have "\<exists>st'. dda_loop gm c md st = Inr st' \<and> I st' \<and> (wall_hit st' \<or> md \<le> depth st')"
  proof (rule dda_loop_rule[where I = I and st = st, OF wf _ init])
    fix s s'
    assume s: "I s" "\<not> wall_hit s" "depth s < md" "dda_step gm c s = Inr s'"
    from s(1,2) have j: "0 \<le> depth s" "depth s < k" by (simp_all add: I_def)
    from s(1) have sx: "side_dist_x s = Fin (1 / 2 + real_of_int (depth s))"
      and sy: "side_dist_y s = PInf" and mc: "map_col s = c0 + depth s * ux"
      and mr: "map_row s = r0" by (simp_all add: I_def)
    have adv: "dda_advance c s = s\<lparr>side_dist_x := Fin (1 / 2 + real_of_int (depth s) + 1),
        map_col := c0 + (depth s + 1) * ux, hit_side := 0\<rparr>"
      by (simp add: dda_advance_def sx sy c mc algebra_simps)
    have tile: "tile_at gm (c0 + (depth s + 1) * ux) r0 = WALL \<longleftrightarrow> depth s + 1 = k"
    proof (cases "depth s + 1 = k")
      case True
      with wall_cell show ?thesis by simp
    next
      case False
      with j have "1 \<le> depth s + 1 \<and> depth s + 1 < k" by simp
      with open_cells False show ?thesis by blast
    qed
    from s(4) have "s' = (dda_advance c s)\<lparr>wall_hit := (depth s + 1 = k), depth := depth s + 1\<rparr>"
      unfolding dda_step_wf[OF wf] adv using tile s(2) mr by simp
    with j sy mr show "I s'" unfolding adv I_def by simp
  qed
  then obtain st' where res: "dda_loop gm c md st = Inr st'" and inv: "I st'"
    and ex: "wall_hit st' \<or> md \<le> depth st'" by blast
  from inv ex k(2) have d: "depth st' = k" by (auto simp: I_def)
  with inv k(1) res show ?thesis by (simp add: I_def)
qed

lemma walk_y:
  assumes wf: "wf_map gm"
    and c: "delta_dist_y c = Fin 1" "step_y c = uy"
    and st: "side_dist_y st = Fin (1 / 2)" "side_dist_x st = PInf" "map_col st = c0"
      "map_row st = r0" "depth st = 0" "\<not> wall_hit st"
    and k: "1 \<le> k" "k \<le> md"
    and open_cells: "\<forall>j. 1 \<le> j \<and> j < k \<longrightarrow> tile_at gm c0 (r0 + j * uy) \<noteq> WALL"
    and wall_cell: "tile_at gm c0 (r0 + k * uy) = WALL"
  shows "\<exists>st'. dda_loop gm c md st = Inr st' \<and> hit_side st' = 1 \<and> depth st' = k \<and>
           side_dist_y st' = Fin (1 / 2 + real_of_int k) \<and> map_col st' = c0 \<and>
           map_row st' = r0 + k * uy \<and> wall_hit st'"
proof -
  define I where "I s \<longleftrightarrow> 0 \<le> depth s \<and> depth s \<le> k \<and>
      side_dist_y s = Fin (1 / 2 + real_of_int (depth s)) \<and> side_dist_x s = PInf \<and>
      map_row s = r0 + depth s * uy \<and> map_col s = c0 \<and>
      (1 \<le> depth s \<longrightarrow> hit_side s = 1) \<and> (wall_hit s \<longleftrightarrow> depth s = k)" for s :: dda_state
  have init: "I st" using st k by (simp add: I_def)
  have "\<exists>st'. dda_loop gm c md st = Inr st' \<and> I st' \<and> (wall_hit st' \<or> md \<le> depth st')"
  proof (rule dda_loop_rule[where I = I and st = st, OF wf _ init])
    fix s s'
    assume s: "I s" "\<not> wall_hit s" "depth s < md" "dda_step gm c s = Inr s'"
    from s(1,2) have j: "0 \<le> depth s" "depth s < k" by (simp_all add: I_def)
    from s(1) have sy: "side_dist_y s = Fin (1 / 2 + real_of_int (depth s))"
      and sx: "side_dist_x s = PInf" and mr: "map_row s = r0 + depth s * uy"
      and mc: "map_col s = c0" by (simp_all add: I_def)
    have adv: "dda_advance c s = s\<lparr>side_dist_y := Fin (1 / 2 + real_of_int (depth s) + 1),
        map_row := r0 + (depth s + 1) * uy, hit_side := 1\<rparr>"
      by (simp add: dda_advance_def sx sy c mr algebra_simps)
    have tile: "tile_at gm c0 (r0 + (depth s + 1) * uy) = WALL \<longleftrightarrow> depth s + 1 = k"
    proof (cases "depth s + 1 = k")
      case True
      with wall_cell show ?thesis by simp
    next
      case False
      with j have "1 \<le> depth s + 1 \<and> depth s + 1 < k" by simp
      with open_cells False show ?thesis by blast
    qed
    from s(4) have "s' = (dda_advance c s)\<lparr>wall_hit := (depth s + 1 = k), depth := depth s + 1\<rparr>"
      unfolding dda_step_wf[OF wf] adv using tile s(2) mc by simp
    with j sx mc show "I s'" unfolding adv I_def by simp
  qed
  then obtain st' where res: "dda_loop gm c md st = Inr st'" and inv: "I st'"
    and ex: "wall_hit st' \<or> md \<le> depth st'" by blast
  from inv ex k(2) have d: "depth st' = k" by (auto simp: I_def)
  with inv k(1) res show ?thesis by (simp add: I_def)
qed

lemma unit_axis:
  fixes ux uy :: int
  assumes "cos a = real_of_int ux" "sin a = real_of_int uy"
  shows "((ux = 1 \<or> ux = - 1) \<and> uy = 0) \<or> (ux = 0 \<and> (uy = 1 \<or> uy = - 1))"
proof -
  have "cos a * cos a + sin a * sin a = 1"
    using sin_cos_squared_add3[of a] by simp
  then have "real_of_int (ux * ux + uy * uy) = real_of_int 1" by (simp add: assms)
  then have one: "ux * ux + uy * uy = 1" by (simp only: of_int_eq_iff)
  from one zero_le_square[of ux] zero_le_square[of uy]
  have "ux * ux \<le> 1" "uy * uy \<le> 1" by linarith+
  then have "ux\<^sup>2 \<le> 1\<^sup>2" "uy\<^sup>2 \<le> 1\<^sup>2" by (simp_all add: power2_eq_square)
  then have "\<bar>ux\<bar> \<le> \<bar>1\<bar>" "\<bar>uy\<bar> \<le> \<bar>1\<bar>" by (simp_all only: abs_le_square_iff)
  then have "ux = - 1 \<or> ux = 0 \<or> ux = 1" "uy = - 1 \<or> uy = 0 \<or> uy = 1" by auto
  with one show ?thesis by auto
qed

lemma wf_ring_map: "wf_map ring_map"
  by (simp add: wf_map_def ring_map_def Map_of_def ring_layout_def)

lemma tile_at_ring_map:
  "tile_at ring_map col row =
     (if 0 \<le> row \<and> row < 5 \<and> 0 \<le> col \<and> col < 5 then ring_layout ! nat row ! nat col else 1)"
  by (simp add: tile_at_def ring_map_def Map_of_def ring_layout_def WALL_def)

lemma perp_dist_walk:
  assumes "1 \<le> k"
  shows "py_max (f_mul (f_sub (Fin (1 / 2 + real_of_int k)) (Fin 1)) (Fin (real_of_int TILE_SIZE)))
           (Fin 0.0001) = Fin ((real_of_int k - 1 / 2) * real_of_int TILE_SIZE)"
proof -
  from assms have "1 \<le> real_of_int k" by simp
  then have "32 \<le> (real_of_int k - 1 / 2) * 64" by (simp add: algebra_simps)
  then have "\<not> (real_of_int k - 1 / 2) * 64 < 1 / 10000" by linarith
  then show ?thesis by (simp add: py_max_def f_sub_def TILE_SIZE_def algebra_simps)
qed

text \<open>
  Claim C1 says that a viewer at the centre of a cell who faces a wall \<open>k\<close> tiles away
  along an axis gets the distance \<open>k * TILE_SIZE\<close>. On the ring map the viewer stands at
  the centre \<open>(96, 96)\<close> of cell \<open>(1, 1)\<close> and looks east; the cells \<open>(2, 1)\<close> and
  \<open>(3, 1)\<close> are empty and the wall is the cell \<open>(4, 1)\<close>, three tiles further; the depth
  limit is 20. The clamped distance is 160, the distance from the viewer to the face of the
  wall, and not \<open>3 * TILE_SIZE = 192\<close>: half a tile less.
\<close>

theorem axis_ray_counterexample:
  "player_x (Player_init 96 96 0) = (1 + 1 / 2) * real_of_int TILE_SIZE \<and>
   player_y (Player_init 96 96 0) = (1 + 1 / 2) * real_of_int TILE_SIZE \<and>
   get_tile ring_map 2 1 = Inr EMPTY \<and> get_tile ring_map 3 1 = Inr EMPTY \<and>
   get_tile ring_map 4 1 = Inr WALL \<and> 3 < MAX_DEPTH \<and>
   ray_perp_dist MAX_DEPTH 0 (Player_init 96 96 0) ring_map = Inr (Fin 160, 0) \<and>
   ray_distance FISHEYE_CORRECTION 0 0 (Fin 160) = Inr (Fin 160) \<and>
   \<bar>160 - 3 * real_of_int TILE_SIZE\<bar> = 32"
  by (simp add: FISHEYE_CORRECTION_def EMPTY_def get_tile_wf[OF wf_ring_map]
      ray_perp_dist_def perp_dist_def py_max_def f_sub_def ray_distance_def
      dda_loop_next[OF wf_ring_map] dda_loop_stop ray_consts_def ray_start_def
      Player_init_def delta_dist_def TILE_SIZE_def Let_def inf_of_sign_def dda_advance_def
      tile_at_ring_map ring_layout_def WALL_def MAX_DEPTH_def)

text \<open>
  Claim C1, amended. On a well-formed map the viewer stands at the centre of the cell
  \<open>(c0, r0)\<close>, the ray runs along an axis (its direction \<open>(cos a, sin a)\<close> is the integer
  vector \<open>(ux, uy)\<close>), the \<open>k - 1\<close> cells that follow the viewer's cell in that direction
  are not walls and the \<open>k\<close>-th is a wall, with \<open>1 \<le> k\<close>. Then for every depth limit
  \<open>max_depth \<ge> k\<close> the clamped distance is exactly \<open>(k - 1/2) * TILE_SIZE\<close>, the side hit is
  0 for a ray along the x axis and 1 for a ray along the y axis, and with the fisheye
  correction on this is the distance used.
\<close>

theorem axis_ray_distance:
  assumes wf: "wf_map gm"
    and dir: "cos a = real_of_int ux" "sin a = real_of_int uy"
    and pos: "player_x p = (real_of_int c0 + 1 / 2) * real_of_int TILE_SIZE"
      "player_y p = (real_of_int r0 + 1 / 2) * real_of_int TILE_SIZE"
    and k: "1 \<le> k" "k \<le> max_depth"
    and open_cells: "\<forall>j. 1 \<le> j \<and> j < k \<longrightarrow> get_tile gm (c0 + j * ux) (r0 + j * uy) \<noteq> Inr WALL"
    and wall_cell: "get_tile gm (c0 + k * ux) (r0 + k * uy) = Inr WALL"
  shows "ray_perp_dist max_depth a p gm
           = Inr (Fin ((real_of_int k - 1 / 2) * real_of_int TILE_SIZE), if uy = 0 then 0 else 1) \<and>
         ray_distance True a pa (Fin ((real_of_int k - 1 / 2) * real_of_int TILE_SIZE))
           = Inr (Fin ((real_of_int k - 1 / 2) * real_of_int TILE_SIZE))"
proof -
  let ?c = "ray_consts a" and ?st = "ray_start a p"
  from open_cells have oc: "\<forall>j. 1 \<le> j \<and> j < k \<longrightarrow> tile_at gm (c0 + j * ux) (r0 + j * uy) \<noteq> WALL"
    by (simp add: get_tile_wf[OF wf])
  from wall_cell have wc: "tile_at gm (c0 + k * ux) (r0 + k * uy) = WALL"
    by (simp add: get_tile_wf[OF wf])
  have tx: "player_x p / real_of_int TILE_SIZE = real_of_int c0 + 1 / 2"
    and ty: "player_y p / real_of_int TILE_SIZE = real_of_int r0 + 1 / 2"
    by (simp_all add: pos TILE_SIZE_def)
  have fl: "\<lfloor>real_of_int c0 + 1 / 2 :: real\<rfloor> = c0" "\<lfloor>real_of_int r0 + 1 / 2 :: real\<rfloor> = r0"
    by (simp_all add: floor_unique)
  have cell: "map_col ?st = c0" "map_row ?st = r0" "depth ?st = 0" "\<not> wall_hit ?st"
    unfolding ray_start_def Let_def tx ty fl by simp_all
  have dist: "ray_distance True a pa (Fin ((real_of_int k - 1 / 2) * real_of_int TILE_SIZE))
           = Inr (Fin ((real_of_int k - 1 / 2) * real_of_int TILE_SIZE))"
    by (simp add: ray_distance_def)
  from unit_axis[OF dir] show ?thesis
  proof
    assume x: "(ux = 1 \<or> ux = - 1) \<and> uy = 0"
    then have c: "delta_dist_x ?c = Fin 1" "step_x ?c = ux"
      by (auto simp: ray_consts_def Let_def dir delta_dist_def)
    from x have s: "side_dist_x ?st = Fin (1 / 2)" "side_dist_y ?st = PInf"
      unfolding ray_start_def Let_def tx ty fl
      by (auto simp: dir delta_dist_def inf_of_sign_def)
    from x oc wc have t: "\<forall>j. 1 \<le> j \<and> j < k \<longrightarrow> tile_at gm (c0 + j * ux) r0 \<noteq> WALL"
      "tile_at gm (c0 + k * ux) r0 = WALL" by simp_all
    from walk_x[OF wf c s cell k t] obtain st' where
      st': "dda_loop gm ?c max_depth ?st = Inr st'" "hit_side st' = 0"
        "side_dist_x st' = Fin (1 / 2 + real_of_int k)" by blast
    have "perp_dist ?c st' = Fin ((real_of_int k - 1 / 2) * real_of_int TILE_SIZE)"
      unfolding perp_dist_def st' c using perp_dist_walk[OF k(1)] by simp
    with st' x dist show ?thesis by (simp add: ray_perp_dist_def)
  next
    assume y: "ux = 0 \<and> (uy = 1 \<or> uy = - 1)"
    then have c: "delta_dist_y ?c = Fin 1" "step_y ?c = uy"
      by (auto simp: ray_consts_def Let_def dir delta_dist_def)
    from y have s: "side_dist_y ?st = Fin (1 / 2)" "side_dist_x ?st = PInf"
      unfolding ray_start_def Let_def tx ty fl
      by (auto simp: dir delta_dist_def inf_of_sign_def)
    from y oc wc have t: "\<forall>j. 1 \<le> j \<and> j < k \<longrightarrow> tile_at gm c0 (r0 + j * uy) \<noteq> WALL"
      "tile_at gm c0 (r0 + k * uy) = WALL" by simp_all
    from walk_y[OF wf c s cell k t] obtain st' where
      st': "dda_loop gm ?c max_depth ?st = Inr st'" "hit_side st' = 1"
        "side_dist_y st' = Fin (1 / 2 + real_of_int k)" by blast
    have "perp_dist ?c st' = Fin ((real_of_int k - 1 / 2) * real_of_int TILE_SIZE)"
      unfolding perp_dist_def st' c using perp_dist_walk[OF k(1)] by simp
    with st' y dist show ?thesis by (auto simp: ray_perp_dist_def)
  qed
qed

text \<open>The ring map, looking south from the centre of cell \<open>(1, 1)\<close>, with \<open>k = 3\<close>.\<close>

theorem axis_ray_distance_witness:
  "wf_map ring_map \<and> cos (pi / 2) = real_of_int 0 \<and> sin (pi / 2) = real_of_int 1 \<and>
   player_x (Player_init 96 96 (pi / 2)) = (real_of_int 1 + 1 / 2) * real_of_int TILE_SIZE \<and>
   player_y (Player_init 96 96 (pi / 2)) = (real_of_int 1 + 1 / 2) * real_of_int TILE_SIZE \<and>
   (1::int) \<le> 3 \<and> 3 \<le> MAX_DEPTH \<and>
   get_tile ring_map 1 2 = Inr EMPTY \<and> get_tile ring_map 1 3 = Inr EMPTY \<and>
   get_tile ring_map 1 4 = Inr WALL \<and>
   ray_perp_dist MAX_DEPTH (pi / 2) (Player_init 96 96 (pi / 2)) ring_map = Inr (Fin 160, 1)"
proof -
  let ?p = "Player_init 96 96 (pi / 2)"
  have tiles: "get_tile ring_map 1 2 = Inr EMPTY" "get_tile ring_map 1 3 = Inr EMPTY"
    "get_tile ring_map 1 4 = Inr WALL"
    by (simp_all add: get_tile_wf[OF wf_ring_map] tile_at_ring_map ring_layout_def
        WALL_def EMPTY_def)
  have h: "\<forall>j. 1 \<le> j \<and> j < 3 \<longrightarrow> get_tile ring_map (1 + j * 0) (1 + j * 1) \<noteq> Inr WALL"
  proof (intro allI impI)
    fix j :: int
    assume "1 \<le> j \<and> j < 3"
    then have "j = 1 \<or> j = 2" by arith
    with tiles show "get_tile ring_map (1 + j * 0) (1 + j * 1) \<noteq> Inr WALL"
      by (auto simp: EMPTY_def WALL_def)
  qed
  have w: "get_tile ring_map (1 + 3 * 0) (1 + 3 * 1) = Inr WALL" using tiles by simp
  have dir: "cos (pi / 2) = real_of_int 0" "sin (pi / 2) = real_of_int 1" by simp_all
  have pos: "player_x ?p = (real_of_int 1 + 1 / 2) * real_of_int TILE_SIZE"
    "player_y ?p = (real_of_int 1 + 1 / 2) * real_of_int TILE_SIZE"
    by (simp_all add: Player_init_def TILE_SIZE_def)
  have k: "(1::int) \<le> 3" "3 \<le> MAX_DEPTH" by (simp_all add: MAX_DEPTH_def)
  from axis_ray_distance[OF wf_ring_map dir pos k h w]
  have "ray_perp_dist MAX_DEPTH (pi / 2) ?p ring_map = Inr (Fin 160, 1)"
    by (simp add: TILE_SIZE_def)
  with wf_ring_map dir pos k tiles show ?thesis by blast
qed

end
